theory Spec2Isabelle
  imports Main "HOL-Library.Word" "HOL-Library.Multiset"
begin

unbundle bit_operations_syntax

section \<open>The su-compatibility hooks (the sucompat part of gf\_spi.h)\<close>

text \<open>
  The three hooks \<^verbatim>\<open>ksu_handle_faccessat\<close>, \<^verbatim>\<open>ksu_handle_stat\<close> and
  \<^verbatim>\<open>ksu_handle_execve_sucompat\<close> all call \<^verbatim>\<open>ksu_sucompat_common\<close>.
  The model threads one record through them: the global enable flag, the
  allow-list, the calling task's uid and user stack pointer, the task's user
  memory, and a trace of the kernel primitives that were invoked.
\<close>

type_synonym addr = "64 word"
type_synonym uid_t = "32 word"

abbreviation NUL :: char where
  "NUL \<equiv> CHR 0x00"

datatype event =
    Ev_copy_from_user_nofault addr nat
  | Ev_copy_from_user addr nat
  | Ev_copy_to_user addr nat
  | Ev_escape_to_root
  | Ev_pr_info string

record task =
  ksu_sucompat_non_kp :: bool
  ksu_is_allow_uid :: "uid_t \<Rightarrow> bool"
  current_uid :: uid_t
  current_user_stack_pointer :: addr
  mem :: "addr \<Rightarrow> char option"
  writable :: "addr \<Rightarrow> bool"
  resident :: "addr \<Rightarrow> bool"
  trace :: "event list"

definition SU_PATH :: string where
  "SU_PATH = ''/system/bin/su''"

definition SH_PATH :: string where
  "SH_PATH = ''/system/bin/sh''"

text \<open>A C string literal as the array it denotes: its characters and the terminator.\<close>

definition c_array :: "string \<Rightarrow> char list" where
  "c_array s = s @ [NUL]"

definition EFAULT :: int where
  "EFAULT = 14"

definition log_event :: "event \<Rightarrow> task \<Rightarrow> task" where
  "log_event e t = t\<lparr>trace := trace t @ [e]\<rparr>"

text \<open>
  Modelled from the spec: \<^verbatim>\<open>copy_from_user\<close> is the kernel's guaranteed copy; its
  source is not part of src. It reads byte after byte, stops at the first unmapped address, zero-fills
  what it could not read and returns the number of bytes not copied.
\<close>

fun raw_copy_from_user :: "task \<Rightarrow> addr \<Rightarrow> nat \<Rightarrow> nat \<times> char list" where
  "raw_copy_from_user t p 0 = (0, [])"
| "raw_copy_from_user t p (Suc n) =
     (case mem t p of
        None \<Rightarrow> (Suc n, replicate (Suc n) NUL)
      | Some c \<Rightarrow> (case raw_copy_from_user t (p + 1) n of (r, cs) \<Rightarrow> (r, c # cs)))"

definition copy_from_user :: "task \<Rightarrow> addr \<Rightarrow> nat \<Rightarrow> nat \<times> char list \<times> task" where
  "copy_from_user t from n =
     (case raw_copy_from_user t from n of
        (r, dst) \<Rightarrow> (r, dst, log_event (Ev_copy_from_user from n) t))"

text \<open>
  Modelled from the spec: \<^verbatim>\<open>ksu_copy_from_user_nofault\<close> (kernel\_compat, not in
  src) is the fast read that may fault. It succeeds, with result 0, exactly when every
  byte of the range is mapped and resident; otherwise it returns \<^verbatim>\<open>-EFAULT\<close>.
\<close>

definition user_range :: "addr \<Rightarrow> nat \<Rightarrow> addr list" where
  "user_range p n = map (\<lambda>i. p + of_nat i) [0..<n]"

definition ksu_copy_from_user_nofault :: "task \<Rightarrow> addr \<Rightarrow> nat \<Rightarrow> int \<times> char list \<times> task" where
  "ksu_copy_from_user_nofault t unsafe_addr n =
     (let t' = log_event (Ev_copy_from_user_nofault unsafe_addr n) t in
      if list_all (resident t) (user_range unsafe_addr n)
         \<and> fst (raw_copy_from_user t unsafe_addr n) = 0
      then (0, snd (raw_copy_from_user t unsafe_addr n), t')
      else (- EFAULT, replicate n NUL, t'))"

text \<open>
  Modelled from the spec: \<^verbatim>\<open>copy_to_user\<close> (not in src) writes byte after byte,
  stops at the first address that is not writable and returns the number of bytes it
  did not write.
\<close>

fun raw_copy_to_user :: "task \<Rightarrow> addr \<Rightarrow> char list \<Rightarrow> nat \<times> task" where
  "raw_copy_to_user t p [] = (0, t)"
| "raw_copy_to_user t p (c # cs) =
     (if writable t p
      then raw_copy_to_user (t\<lparr>mem := (mem t)(p \<mapsto> c)\<rparr>) (p + 1) cs
      else (length (c # cs), t))"

definition copy_to_user :: "task \<Rightarrow> addr \<Rightarrow> char list \<Rightarrow> nat \<times> task" where
  "copy_to_user t to d =
     raw_copy_to_user (log_event (Ev_copy_to_user to (length d)) t) to d"

text \<open>
  Modelled from the spec: \<^verbatim>\<open>ksu_escape_to_root\<close> (not in src) raises the caller's
  credentials; the model records that it was called.
\<close>

definition ksu_escape_to_root :: "task \<Rightarrow> task" where
  "ksu_escape_to_root t = log_event Ev_escape_to_root t"

definition pr_info :: "string \<Rightarrow> task \<Rightarrow> task" where
  "pr_info msg t = log_event (Ev_pr_info msg) t"

text \<open>The source functions. The null user pointer is address 0.\<close>

definition userspace_stack_buffer :: "task \<Rightarrow> char list \<Rightarrow> addr \<times> task" where
  "userspace_stack_buffer t d =
     (let p = current_user_stack_pointer t - of_nat (length d) in
      case copy_to_user t p d of
        (r, t') \<Rightarrow> (if r \<noteq> 0 then 0 else p, t'))"

definition sh_user_path :: "task \<Rightarrow> addr \<times> task" where
  "sh_user_path t = userspace_stack_buffer t (c_array ''/system/bin/sh'')"

text \<open>
  \<^verbatim>\<open>KSUD_PATH\<close> comes from ksud.h, which is not in src; it is a parameter of the
  functions that use it.
\<close>

definition ksud_user_path :: "string \<Rightarrow> task \<Rightarrow> addr \<times> task" where
  "ksud_user_path KSUD_PATH t = userspace_stack_buffer t (c_array KSUD_PATH)"

definition ksu_copy_from_user_retry :: "task \<Rightarrow> addr \<Rightarrow> nat \<Rightarrow> int \<times> char list \<times> task" where
  "ksu_copy_from_user_retry t unsafe_addr n =
     (case ksu_copy_from_user_nofault t unsafe_addr n of
        (ret, dst, t') \<Rightarrow>
          if ret = 0 then (ret, dst, t')
          else (case copy_from_user t' unsafe_addr n of
                  (r, dst', t'') \<Rightarrow> (int r, dst', t'')))"

text \<open>
  \<^verbatim>\<open>filename_user\<close> is a pointer to the slot that holds the user pointer:
  \<open>None\<close> is the null double pointer, \<open>Some p\<close> a slot holding \<open>p\<close>.
  The result is the return value, the slot afterwards, and the task.
\<close>

definition ksu_sucompat_common ::
  "string \<Rightarrow> task \<Rightarrow> addr option \<Rightarrow> string \<Rightarrow> bool \<Rightarrow> int \<times> addr option \<times> task" where
  "ksu_sucompat_common KSUD_PATH t filename_user syscall_name escalate =
     (let su = c_array SU_PATH in
      if \<not> ksu_sucompat_non_kp t then (0, filename_user, t)
      else if \<not> ksu_is_allow_uid t (current_uid t) then (0, filename_user, t)
      else case filename_user of
        None \<Rightarrow> (0, None, t)
      | Some fu \<Rightarrow>
          (case ksu_copy_from_user_retry t fu (length su + 1) of
             (r, path0, t1) \<Rightarrow>
               if r \<noteq> 0 then (0, Some fu, t1)
               else
                 let path = path0[length su + 1 - 1 := NUL] in
                 if take (length su) path \<noteq> su then (0, Some fu, t1)
                 else if escalate then
                   (case ksud_user_path KSUD_PATH (pr_info (syscall_name @ '' su found'') t1) of
                      (p, t2) \<Rightarrow> (0, Some p, ksu_escape_to_root t2))
                 else
                   (case sh_user_path (pr_info (syscall_name @ '' su->sh!'') t1) of
                      (p, t2) \<Rightarrow> (0, Some p, t2))))"

text \<open>The hooks ignore their other arguments (dfd, mode, flags, argv, envp).\<close>

definition ksu_handle_faccessat :: "string \<Rightarrow> task \<Rightarrow> addr option \<Rightarrow> int \<times> addr option \<times> task" where
  "ksu_handle_faccessat KSUD_PATH t filename_user =
     ksu_sucompat_common KSUD_PATH t filename_user ''faccessat'' False"

definition ksu_handle_stat :: "string \<Rightarrow> task \<Rightarrow> addr option \<Rightarrow> int \<times> addr option \<times> task" where
  "ksu_handle_stat KSUD_PATH t filename_user =
     ksu_sucompat_common KSUD_PATH t filename_user ''newfstatat'' False"

definition ksu_handle_execve_sucompat :: "string \<Rightarrow> task \<Rightarrow> addr option \<Rightarrow> int \<times> addr option \<times> task" where
  "ksu_handle_execve_sucompat KSUD_PATH t filename_user =
     ksu_sucompat_common KSUD_PATH t filename_user ''sys_execve'' True"


text \<open>
  What the claims speak about: the C string held in a character array, the task after
  the read of the target (only the trace grows), and whether the copy that stages a
  replacement string below the user stack pointer succeeds.
\<close>

definition cstr :: "char list \<Rightarrow> string" where
  "cstr a = takeWhile (\<lambda>c. c \<noteq> NUL) a"

definition read_logged :: "task \<Rightarrow> addr \<Rightarrow> nat \<Rightarrow> task" where
  "read_logged t p n = snd (snd (ksu_copy_from_user_retry t p n))"

definition staging_ok :: "task \<Rightarrow> char list \<Rightarrow> bool" where
  "staging_ok t d =
     (fst (copy_to_user t (current_user_stack_pointer t - of_nat (length d)) d) = 0)"

definition stageable :: "task \<Rightarrow> char list \<Rightarrow> bool" where
  "stageable t d =
     list_all (writable t)
       (user_range (current_user_stack_pointer t - of_nat (length d)) (length d))"

text \<open>A task for concrete runs: user memory holds \<open>bs\<close> from address 0x7000 on.\<close>

definition bytes_at :: "addr \<Rightarrow> char list \<Rightarrow> addr \<Rightarrow> char option" where
  "bytes_at base bs a =
     (if unat (a - base) < length bs then Some (bs ! unat (a - base)) else None)"

definition user_task :: "bool \<Rightarrow> uid_t \<Rightarrow> char list \<Rightarrow> bool \<Rightarrow> task" where
  "user_task enabled uid bs wr =
     \<lparr>ksu_sucompat_non_kp = enabled,
      ksu_is_allow_uid = (\<lambda>u. u = 10123),
      current_uid = uid,
      current_user_stack_pointer = 0x8000,
      mem = bytes_at 0x7000 bs,
      writable = (\<lambda>a. wr),
      resident = (\<lambda>a. True),
      trace = []\<rparr>"

section \<open>The susfs registries (fs/susfs.c)\<close>

text \<open>
  The structures of susfs.h are not in src. The records below have the fields that
  susfs.c reads and writes; a pathname field is the raw character array, and
  \<open>cstr\<close> is the string that \<^verbatim>\<open>strcmp\<close>, \<^verbatim>\<open>strncpy\<close> and \<^verbatim>\<open>kern_path\<close> read
  from it. The list linkage (\<^verbatim>\<open>node\<close>, \<^verbatim>\<open>list\<close>) is the HOL list itself. The
  constants of susfs.h and of the kernel headers are the fields of \<open>susfs_h\<close>.
\<close>

record st_susfs_sus_path =
  target_ino :: "64 word"
  target_pathname :: "char list"

record st_susfs_sus_mount =
  mount_target_pathname :: "char list"
  target_dev :: "64 word"

record st_susfs_try_umount =
  umount_target_pathname :: "char list"
  mnt_mode :: int

record susfs_h =
  SUSFS_MAX_LEN_PATHNAME :: nat
  INODE_STATE_SUS_PATH :: "64 word"
  INODE_STATE_SUS_MOUNT :: "64 word"
  DEFAULT_SUS_MNT_GROUP_ID :: int
  TRY_UMOUNT_DEFAULT :: int
  TRY_UMOUNT_DETACH :: int
  MNT_DETACH :: int
  decode_dev :: "64 word \<Rightarrow> 64 word"
  hash_min :: "64 word \<Rightarrow> nat"

text \<open>
  What \<^verbatim>\<open>kern_path\<close> resolves a pathname to: the filesystem type name of the mount's
  superblock, the peer group id of the mount, and the inode of the dentry (\<open>None\<close> is
  the null inode).
\<close>

record kpath =
  s_type_name :: string
  mnt_group_id :: int
  d_inode :: "nat option"

datatype susfs_event =
    E_failed_copying
  | E_no_memory
  | E_failed_opening string
  | E_fs_type_not_allowed string string
  | E_inode_is_NULL
  | E_skip_legit_peer_group string
  | E_already_created string
  | E_mnt_mode_not_supported string uid_t int
  | I_path_updated "64 word" string
  | I_path_added "64 word" string
  | I_mount_updated string "64 word"
  | I_mount_added string "64 word"
  | I_umount_added string int
  | Ksu_try_umount string bool int uid_t

record susfs =
  susfs_is_log_enabled :: bool
  kern_path :: "string \<Rightarrow> kpath option"
  i_state :: "nat \<Rightarrow> 64 word"
  SUS_PATH_HLIST :: "nat \<Rightarrow> st_susfs_sus_path list"
  LH_SUS_MOUNT :: "st_susfs_sus_mount list"
  LH_TRY_UMOUNT_PATH :: "st_susfs_try_umount list"
  ktrace :: "susfs_event list"

text \<open>\<^verbatim>\<open>SUSFS_LOGI\<close> and \<^verbatim>\<open>SUSFS_LOGE\<close> print only while logging is enabled.\<close>

definition SUSFS_LOG :: "susfs_event \<Rightarrow> susfs \<Rightarrow> susfs" where
  "SUSFS_LOG m s = (if susfs_is_log_enabled s then s\<lparr>ktrace := ktrace s @ [m]\<rparr> else s)"

text \<open>
  An array is terminated when it holds a NUL. \<^verbatim>\<open>copy_from_user\<close> copies a request
  as raw bytes, so a pathname array of a request need not be terminated.
\<close>

definition terminated :: "char list \<Rightarrow> bool" where
  "terminated a = (NUL \<in> set a)"

text \<open>
  \<^verbatim>\<open>!strcmp(a, b)\<close> on two character arrays: the strings up to the first NUL are
  equal. This is what \<^verbatim>\<open>strcmp\<close> computes when both arrays are terminated. On an
  array without NUL the C function reads on into the bytes that follow the array (the
  next field of the structure), which \<open>cstr\<close> does not do; the properties of the
  mount list and of registering an unmount path twice are therefore stated for
  terminated arrays.
\<close>

definition strcmp_eq :: "char list \<Rightarrow> char list \<Rightarrow> bool" where
  "strcmp_eq a b = (cstr a = cstr b)"

text \<open>
  \<^verbatim>\<open>strncpy(dst, src, n)\<close>: the string of \<open>src\<close>, cut or padded with NUL to \<open>n\<close>
  bytes; the bytes of \<open>dst\<close> from index \<open>n\<close> on keep what they held.
\<close>

definition strncpy :: "char list \<Rightarrow> char list \<Rightarrow> nat \<Rightarrow> char list" where
  "strncpy dst src n = take n (cstr src @ replicate n NUL) @ drop n dst"

subsection \<open>sus\_path\<close>

definition HASH_SIZE :: nat where
  "HASH_SIZE = 2 ^ 10"

definition set_i_state :: "64 word \<Rightarrow> nat \<Rightarrow> susfs \<Rightarrow> susfs" where
  "set_i_state flag i s =
     (if i_state s i AND flag = 0
      then s\<lparr>i_state := (i_state s)(i := i_state s i OR flag)\<rparr>
      else s)"

definition susfs_update_sus_path_inode :: "susfs_h \<Rightarrow> susfs \<Rightarrow> char list \<Rightarrow> int \<times> susfs" where
  "susfs_update_sus_path_inode h s pathname =
     (case kern_path s (cstr pathname) of
        None \<Rightarrow> (1, SUSFS_LOG (E_failed_opening (cstr pathname)) s)
      | Some p \<Rightarrow>
          let dev_type = s_type_name p in
          if dev_type = ''tmpfs'' \<or> dev_type = ''fuse''
          then (1, SUSFS_LOG (E_fs_type_not_allowed (cstr pathname) dev_type) s)
          else (case d_inode p of
                  None \<Rightarrow> (1, SUSFS_LOG E_inode_is_NULL s)
                | Some inode \<Rightarrow> (0, set_i_state (INODE_STATE_SUS_PATH h) inode s)))"

text \<open>
  The loop over the hash table in \<^verbatim>\<open>susfs_add_sus_path\<close>: buckets in index order,
  each chain from its head; the first entry that matches is unlinked and the loop ends.
  The result is the table and \<^verbatim>\<open>update_hlist\<close>.
\<close>

fun hlist_del_first :: "('a \<Rightarrow> bool) \<Rightarrow> 'a list \<Rightarrow> 'a list option" where
  "hlist_del_first P [] = None"
| "hlist_del_first P (e # es) =
     (if P e then Some es else map_option (Cons e) (hlist_del_first P es))"

fun hash_del_first ::
  "('a \<Rightarrow> bool) \<Rightarrow> (nat \<Rightarrow> 'a list) \<Rightarrow> nat list \<Rightarrow> (nat \<Rightarrow> 'a list) \<times> bool" where
  "hash_del_first P tbl [] = (tbl, False)"
| "hash_del_first P tbl (bkt # bkts) =
     (case hlist_del_first P (tbl bkt) of
        Some es \<Rightarrow> (tbl(bkt := es), True)
      | None \<Rightarrow> hash_del_first P tbl bkts)"

text \<open>\<^verbatim>\<open>hash_add\<close> links the entry at the head of the bucket of its key.\<close>

definition hash_add :: "susfs_h \<Rightarrow> (nat \<Rightarrow> 'a list) \<Rightarrow> 'a \<Rightarrow> 64 word \<Rightarrow> nat \<Rightarrow> 'a list" where
  "hash_add h tbl e key = tbl(hash_min h key mod HASH_SIZE := e # tbl (hash_min h key mod HASH_SIZE))"

text \<open>
  \<open>user_info\<close> is what \<^verbatim>\<open>copy_from_user\<close> delivers (\<open>None\<close> when it faults) and
  \<open>kmalloc\<close> the uninitialised entry the allocator returns (\<open>None\<close> when it fails).
\<close>

definition susfs_add_sus_path ::
  "susfs_h \<Rightarrow> susfs \<Rightarrow> st_susfs_sus_path option \<Rightarrow> st_susfs_sus_path option \<Rightarrow> int \<times> susfs" where
  "susfs_add_sus_path h s user_info kmalloc =
     (case user_info of
        None \<Rightarrow> (1, SUSFS_LOG E_failed_copying s)
      | Some info \<Rightarrow>
          (case hash_del_first (\<lambda>tmp_entry. strcmp_eq (target_pathname tmp_entry) (target_pathname info))
                  (SUS_PATH_HLIST s) [0..<HASH_SIZE] of
             (tbl, update_hlist) \<Rightarrow>
               let s1 = s\<lparr>SUS_PATH_HLIST := tbl\<rparr> in
               (case kmalloc of
                  None \<Rightarrow> (1, SUSFS_LOG E_no_memory s1)
                | Some fresh \<Rightarrow>
                    let new_entry = fresh\<lparr>target_ino := target_ino info,
                          target_pathname := strncpy (target_pathname fresh) (target_pathname info)
                                               (SUSFS_MAX_LEN_PATHNAME h - 1)\<rparr> in
                    (case susfs_update_sus_path_inode h s1 (target_pathname new_entry) of
                       (r, s2) \<Rightarrow>
                         if r \<noteq> 0 then (1, s2)
                         else
                           let s3 = s2\<lparr>SUS_PATH_HLIST :=
                                      hash_add h (SUS_PATH_HLIST s2) new_entry (target_ino info)\<rparr> in
                           (0, SUSFS_LOG
                                 ((if update_hlist then I_path_updated else I_path_added)
                                    (target_ino new_entry) (cstr (target_pathname new_entry))) s3)))))"

definition susfs_sus_ino_for_filldir64 :: "susfs_h \<Rightarrow> susfs \<Rightarrow> 64 word \<Rightarrow> int" where
  "susfs_sus_ino_for_filldir64 h s ino =
     (if list_ex (\<lambda>entry. target_ino entry = ino) (SUS_PATH_HLIST s (hash_min h ino mod HASH_SIZE))
      then 1 else 0)"

subsection \<open>sus\_mount\<close>

definition susfs_update_sus_mount_inode :: "susfs_h \<Rightarrow> susfs \<Rightarrow> char list \<Rightarrow> susfs" where
  "susfs_update_sus_mount_inode h s pathname =
     (case kern_path s (cstr pathname) of
        None \<Rightarrow> SUSFS_LOG (E_failed_opening (cstr pathname)) s
      | Some p \<Rightarrow>
          if mnt_group_id p > 0 \<and> mnt_group_id p < DEFAULT_SUS_MNT_GROUP_ID h
          then SUSFS_LOG (E_skip_legit_peer_group (cstr pathname)) s
          else (case d_inode p of
                  None \<Rightarrow> SUSFS_LOG E_inode_is_NULL s
                | Some inode \<Rightarrow> set_i_state (INODE_STATE_SUS_MOUNT h) inode s))"

text \<open>
  The scan of \<^verbatim>\<open>LH_SUS_MOUNT\<close>: the first entry that satisfies \<open>P\<close> is overwritten
  (\<^verbatim>\<open>memcpy\<close>); \<open>None\<close> when the scan reaches the end of the list.
\<close>

fun overwrite_first :: "('a \<Rightarrow> bool) \<Rightarrow> 'a \<Rightarrow> 'a list \<Rightarrow> 'a list option" where
  "overwrite_first P v [] = None"
| "overwrite_first P v (cursor # rest) =
     (if P cursor then Some (v # rest) else map_option (Cons cursor) (overwrite_first P v rest))"

definition susfs_add_sus_mount ::
  "susfs_h \<Rightarrow> susfs \<Rightarrow> st_susfs_sus_mount option \<Rightarrow> st_susfs_sus_mount option \<Rightarrow> int \<times> susfs" where
  "susfs_add_sus_mount h s user_info kmalloc =
     (case user_info of
        None \<Rightarrow> (1, SUSFS_LOG E_failed_copying s)
      | Some info0 \<Rightarrow>
          let info = info0\<lparr>target_dev := decode_dev h (target_dev info0)\<rparr> in
          (case overwrite_first
                  (\<lambda>cursor. strcmp_eq (mount_target_pathname cursor) (mount_target_pathname info))
                  info (LH_SUS_MOUNT s) of
             Some l \<Rightarrow>
               (0, SUSFS_LOG (I_mount_updated (cstr (mount_target_pathname info)) (target_dev info))
                     (susfs_update_sus_mount_inode h (s\<lparr>LH_SUS_MOUNT := l\<rparr>)
                        (mount_target_pathname info)))
           | None \<Rightarrow>
               (case kmalloc of
                  None \<Rightarrow> (1, SUSFS_LOG E_no_memory s)
                | Some fresh \<Rightarrow>
                    let new_list = info;
                        s1 = susfs_update_sus_mount_inode h s (mount_target_pathname new_list) in
                    (0, SUSFS_LOG (I_mount_added (cstr (mount_target_pathname new_list))
                                     (target_dev new_list))
                          (s1\<lparr>LH_SUS_MOUNT := LH_SUS_MOUNT s1 @ [new_list]\<rparr>)))))"

subsection \<open>try\_umount\<close>

definition susfs_add_try_umount ::
  "susfs_h \<Rightarrow> susfs \<Rightarrow> st_susfs_try_umount option \<Rightarrow> st_susfs_try_umount option \<Rightarrow> int \<times> susfs" where
  "susfs_add_try_umount h s user_info kmalloc =
     (case user_info of
        None \<Rightarrow> (1, SUSFS_LOG E_failed_copying s)
      | Some info \<Rightarrow>
          if list_ex (\<lambda>cursor. strcmp_eq (umount_target_pathname info) (umount_target_pathname cursor))
               (LH_TRY_UMOUNT_PATH s)
          then (1, SUSFS_LOG (E_already_created (cstr (umount_target_pathname info))) s)
          else (case kmalloc of
                  None \<Rightarrow> (1, SUSFS_LOG E_no_memory s)
                | Some fresh \<Rightarrow>
                    let new_list = info in
                    (0, SUSFS_LOG (I_umount_added (cstr (umount_target_pathname new_list))
                                     (mnt_mode new_list))
                          (s\<lparr>LH_TRY_UMOUNT_PATH := LH_TRY_UMOUNT_PATH s @ [new_list]\<rparr>))))"

text \<open>
  Modelled from the spec: \<^verbatim>\<open>ksu_try_umount\<close> (not in src) issues one unmount; the
  model records the call with its arguments.
\<close>

definition ksu_try_umount :: "string \<Rightarrow> bool \<Rightarrow> int \<Rightarrow> uid_t \<Rightarrow> susfs \<Rightarrow> susfs" where
  "ksu_try_umount mnt check_mnt flags uid s =
     s\<lparr>ktrace := ktrace s @ [Ksu_try_umount mnt check_mnt flags uid]\<rparr>"

definition try_umount_body :: "susfs_h \<Rightarrow> uid_t \<Rightarrow> st_susfs_try_umount \<Rightarrow> susfs \<Rightarrow> susfs" where
  "try_umount_body h target_uid cursor s =
     (if mnt_mode cursor = TRY_UMOUNT_DEFAULT h
      then ksu_try_umount (cstr (umount_target_pathname cursor)) False 0 target_uid s
      else if mnt_mode cursor = TRY_UMOUNT_DETACH h
      then ksu_try_umount (cstr (umount_target_pathname cursor)) False (MNT_DETACH h) target_uid s
      else SUSFS_LOG (E_mnt_mode_not_supported (cstr (umount_target_pathname cursor)) target_uid
                        (mnt_mode cursor)) s)"

text \<open>\<^verbatim>\<open>list_for_each_entry_reverse\<close>: the body runs on the tail of the list first.\<close>

fun list_for_each_entry_reverse :: "('a \<Rightarrow> 's \<Rightarrow> 's) \<Rightarrow> 'a list \<Rightarrow> 's \<Rightarrow> 's" where
  "list_for_each_entry_reverse body [] s = s"
| "list_for_each_entry_reverse body (cursor # rest) s =
     body cursor (list_for_each_entry_reverse body rest s)"

definition susfs_try_umount :: "susfs_h \<Rightarrow> susfs \<Rightarrow> uid_t \<Rightarrow> susfs" where
  "susfs_try_umount h s target_uid =
     list_for_each_entry_reverse (try_umount_body h target_uid) (LH_TRY_UMOUNT_PATH s) s"

subsection \<open>Views of the registries, call sequences and a concrete system\<close>

definition loop_events :: "susfs_h \<Rightarrow> uid_t \<Rightarrow> bool \<Rightarrow> st_susfs_try_umount \<Rightarrow> susfs_event list" where
  "loop_events h target_uid logging cursor =
     (if mnt_mode cursor = TRY_UMOUNT_DEFAULT h
      then [Ksu_try_umount (cstr (umount_target_pathname cursor)) False 0 target_uid]
      else if mnt_mode cursor = TRY_UMOUNT_DETACH h
      then [Ksu_try_umount (cstr (umount_target_pathname cursor)) False (MNT_DETACH h) target_uid]
      else if logging
      then [E_mnt_mode_not_supported (cstr (umount_target_pathname cursor)) target_uid
              (mnt_mode cursor)]
      else [])"



definition hash_entries :: "(nat \<Rightarrow> 'a list) \<Rightarrow> 'a list" where
  "hash_entries tbl = concat (map tbl [0..<HASH_SIZE])"

definition sus_path_records :: "susfs \<Rightarrow> string \<Rightarrow> st_susfs_sus_path list" where
  "sus_path_records s name =
     filter (\<lambda>e. cstr (target_pathname e) = name) (hash_entries (SUS_PATH_HLIST s))"

definition short_name :: "susfs_h \<Rightarrow> st_susfs_sus_path option \<Rightarrow> bool" where
  "short_name h user_info =
     (case user_info of
        None \<Rightarrow> True
      | Some info \<Rightarrow> length (cstr (target_pathname info)) < SUSFS_MAX_LEN_PATHNAME h - 1)"


definition sus_path_resolves :: "susfs \<Rightarrow> string \<Rightarrow> nat \<Rightarrow> bool" where
  "sus_path_resolves s name inode =
     (case kern_path s name of
        None \<Rightarrow> False
      | Some p \<Rightarrow> s_type_name p \<noteq> ''tmpfs'' \<and> s_type_name p \<noteq> ''fuse'' \<and> d_inode p = Some inode)"

definition pathname_array :: "nat \<Rightarrow> string \<Rightarrow> char list" where
  "pathname_array n name = name @ replicate (n - length name) NUL"

definition demo_h :: susfs_h where
  "demo_h =
     \<lparr>SUSFS_MAX_LEN_PATHNAME = 256,
      INODE_STATE_SUS_PATH = 16777216,
      INODE_STATE_SUS_MOUNT = 33554432,
      DEFAULT_SUS_MNT_GROUP_ID = 1000,
      TRY_UMOUNT_DEFAULT = 0,
      TRY_UMOUNT_DETACH = 1,
      MNT_DETACH = 2,
      decode_dev = (\<lambda>dev. push_bit 20 (drop_bit 8 (dev AND 0xfff00))
                          OR ((dev AND 0xff) OR (drop_bit 12 dev AND 0xfff00))),
      hash_min = unat\<rparr>"

definition demo_fs :: "string \<Rightarrow> kpath option" where
  "demo_fs name =
     (if name = ''/system/addon''
        then Some \<lparr>s_type_name = ''erofs'', mnt_group_id = 0, d_inode = Some 7\<rparr>
      else if name = ''/data/tmp''
        then Some \<lparr>s_type_name = ''tmpfs'', mnt_group_id = 0, d_inode = Some 8\<rparr>
      else if name = ''/mnt/shared''
        then Some \<lparr>s_type_name = ''ext4'', mnt_group_id = 5, d_inode = Some 9\<rparr>
      else if name = ''/mnt/sus''
        then Some \<lparr>s_type_name = ''ext4'', mnt_group_id = 1000, d_inode = Some 10\<rparr>
      else None)"

definition demo_susfs :: "bool \<Rightarrow> susfs" where
  "demo_susfs logging =
     \<lparr>susfs_is_log_enabled = logging,
      kern_path = demo_fs,
      i_state = (\<lambda>inode. 0),
      SUS_PATH_HLIST = (\<lambda>bkt. []),
      LH_SUS_MOUNT = [],
      LH_TRY_UMOUNT_PATH = [],
      ktrace = []\<rparr>"

definition demo_path :: "string \<Rightarrow> st_susfs_sus_path" where
  "demo_path name = \<lparr>target_ino = 7, target_pathname = pathname_array 256 name\<rparr>"

definition demo_umount :: "string \<Rightarrow> int \<Rightarrow> st_susfs_try_umount" where
  "demo_umount name mode = \<lparr>umount_target_pathname = pathname_array 256 name, mnt_mode = mode\<rparr>"

definition demo_mount :: "string \<Rightarrow> 64 word \<Rightarrow> st_susfs_sus_mount" where
  "demo_mount name dev = \<lparr>mount_target_pathname = pathname_array 256 name, target_dev = dev\<rparr>"

definition demo_registered :: susfs where
  "demo_registered =
     (snd (susfs_add_sus_path demo_h (demo_susfs True) (Some (demo_path ''/system/addon''))
             (Some (demo_path []))))\<lparr>kern_path := (\<lambda>name. None)\<rparr>"

definition demo_ledger1 :: susfs where
  "demo_ledger1 = snd (susfs_add_try_umount demo_h (demo_susfs False)
      (Some (demo_umount ''/data/adb/a'' 0)) (Some (demo_umount [] 0)))"

definition demo_ledger2 :: susfs where
  "demo_ledger2 = snd (susfs_add_try_umount demo_h demo_ledger1
      (Some (demo_umount ''/data/adb/b'' 1)) (Some (demo_umount [] 0)))"

definition demo_ledger3 :: susfs where
  "demo_ledger3 = snd (susfs_add_try_umount demo_h demo_ledger2
      (Some (demo_umount ''/data/adb/c'' 0)) (Some (demo_umount [] 0)))"

definition demo_modules :: "bool \<Rightarrow> susfs" where
  "demo_modules logging = snd (susfs_add_try_umount demo_h (demo_susfs logging)
      (Some (demo_umount ''/data/adb/modules'' 1)) (Some (demo_umount [] 0)))"




section \<open>Properties of the su-compatibility hooks\<close>

subsection \<open>The user-memory primitives\<close>

lemma log_event_simps [simp]:
  "mem (log_event e t) = mem t"
  "writable (log_event e t) = writable t"
  "resident (log_event e t) = resident t"
  "current_user_stack_pointer (log_event e t) = current_user_stack_pointer t"
  "trace (log_event e t) = trace t @ [e]"
  by (simp_all add: log_event_def)

lemma raw_copy_from_user_cong:
  "mem t' = mem t \<Longrightarrow> raw_copy_from_user t' p n = raw_copy_from_user t p n"
  by (induction n arbitrary: p) (simp_all split: option.splits prod.splits)

lemma raw_copy_from_user_log [simp]:
  "raw_copy_from_user (log_event e t) p n = raw_copy_from_user t p n"
  by (rule raw_copy_from_user_cong) simp

lemma length_raw_copy_from_user [simp]:
  "length (snd (raw_copy_from_user t p n)) = n"
  by (induction n arbitrary: p) (simp_all add: case_prod_beta split: option.splits)

lemma user_range_Suc: "user_range p (Suc n) = p # user_range (p + 1) n"
proof -
  have "[0..<Suc n] = 0 # map Suc [0..<n]"
    by (simp add: upt_conv_Cons map_Suc_upt del: upt_Suc)
  then show ?thesis
    by (simp add: user_range_def comp_def add.assoc del: upt_Suc)
qed

lemma user_range_0 [simp]: "user_range p 0 = []"
  by (simp add: user_range_def)

lemma raw_copy_to_user_fields:
  "writable (snd (raw_copy_to_user t p d)) = writable t \<and>
   trace (snd (raw_copy_to_user t p d)) = trace t \<and>
   ksu_sucompat_non_kp (snd (raw_copy_to_user t p d)) = ksu_sucompat_non_kp t"
  by (induction d arbitrary: t p) simp_all

lemma raw_copy_to_user_ok:
  "fst (raw_copy_to_user t p d) = 0 \<longleftrightarrow> list_all (writable t) (user_range p (length d))"
  by (induction d arbitrary: t p) (simp_all add: user_range_Suc)

lemma retry_result:
  "ksu_copy_from_user_retry t p n =
    (if list_all (resident t) (user_range p n) \<and> fst (raw_copy_from_user t p n) = 0
     then (0, snd (raw_copy_from_user t p n), log_event (Ev_copy_from_user_nofault p n) t)
     else (int (fst (raw_copy_from_user t p n)), snd (raw_copy_from_user t p n),
           log_event (Ev_copy_from_user p n) (log_event (Ev_copy_from_user_nofault p n) t)))"
  by (simp add: ksu_copy_from_user_retry_def ksu_copy_from_user_nofault_def copy_from_user_def
      EFAULT_def Let_def split: prod.splits)


lemma read_logged_fields [simp]:
  "mem (read_logged t p n) = mem t"
  "writable (read_logged t p n) = writable t"
  "current_user_stack_pointer (read_logged t p n) = current_user_stack_pointer t"
  by (simp_all add: read_logged_def retry_result)

lemma trace_read_logged:
  "trace (read_logged t p n) =
     trace t @ Ev_copy_from_user_nofault p n #
       (if fst (ksu_copy_from_user_nofault t p n) = 0 then [] else [Ev_copy_from_user p n])"
  by (simp add: read_logged_def retry_result ksu_copy_from_user_nofault_def Let_def EFAULT_def)

lemma retry_fst:
  "fst (ksu_copy_from_user_retry t p n) = 0 \<longleftrightarrow> fst (raw_copy_from_user t p n) = 0"
  by (simp add: retry_result)

lemma retry_dst:
  "fst (snd (ksu_copy_from_user_retry t p n)) = snd (raw_copy_from_user t p n)"
  by (simp add: retry_result)

lemma su_array_length: "length (c_array SU_PATH) = 15"
  by (simp add: c_array_def SU_PATH_def)

lemma common_enabled:
  assumes "ksu_sucompat_non_kp t" "ksu_is_allow_uid t (current_uid t)"
  shows "ksu_sucompat_common K t (Some p) nm esc =
    (if fst (raw_copy_from_user t p 16) \<noteq> 0 then (0, Some p, read_logged t p 16)
     else if take 15 (snd (raw_copy_from_user t p 16)) \<noteq> c_array SU_PATH
       then (0, Some p, read_logged t p 16)
     else if esc then
       (0, Some (fst (ksud_user_path K (pr_info (nm @ '' su found'') (read_logged t p 16)))),
        ksu_escape_to_root (snd (ksud_user_path K (pr_info (nm @ '' su found'') (read_logged t p 16)))))
     else
       (0, Some (fst (sh_user_path (pr_info (nm @ '' su->sh!'') (read_logged t p 16)))),
        snd (sh_user_path (pr_info (nm @ '' su->sh!'') (read_logged t p 16)))))"
proof -
  obtain r d t1 where R: "ksu_copy_from_user_retry t p 16 = (r, d, t1)"
    by (cases "ksu_copy_from_user_retry t p 16") auto
  have r: "(r = 0) = (fst (raw_copy_from_user t p 16) = 0)"
    using retry_fst [of t p 16] R by simp
  have d: "d = snd (raw_copy_from_user t p 16)"
    using retry_dst [of t p 16] R by simp
  have t1: "t1 = read_logged t p 16"
    using R by (simp add: read_logged_def)
  have tk: "take 15 (d[15 := NUL]) = take 15 d"
    by simp
  show ?thesis
    using assms r
    by (simp add: ksu_sucompat_common_def Let_def su_array_length R tk case_prod_beta
        flip: d t1)
qed

lemma common_returns_0: "fst (ksu_sucompat_common K t fu nm esc) = 0"
  by (simp add: ksu_sucompat_common_def Let_def case_prod_beta split: option.splits)

lemma common_read_failure:
  assumes "fst (ksu_copy_from_user_retry t p (length (c_array SU_PATH) + 1)) \<noteq> 0"
  shows "ksu_sucompat_common K t (Some p) nm esc =
     (0, Some p,
      if ksu_sucompat_non_kp t \<and> ksu_is_allow_uid t (current_uid t)
      then read_logged t p (length (c_array SU_PATH) + 1) else t)"
  using assms
  by (simp add: ksu_sucompat_common_def Let_def case_prod_beta read_logged_def)


lemma cstr_append_NUL: "NUL \<notin> set s \<Longrightarrow> cstr (s @ NUL # r) = s"
  by (induction s) (auto simp: cstr_def)

lemma cstr_no_NUL: "NUL \<notin> set (cstr a)"
  by (auto simp: cstr_def dest: set_takeWhileD)

lemma cstr_split:
  "length (cstr a) < length a \<Longrightarrow> a = cstr a @ NUL # drop (Suc (length (cstr a))) a"
  by (induction a) (auto simp: cstr_def)

lemma memcmp_is_cstr_eq:
  assumes "NUL \<notin> set s" "length s < length a"
  shows "take (Suc (length s)) a = s @ [NUL] \<longleftrightarrow> cstr a = s"
proof
  assume t: "take (Suc (length s)) a = s @ [NUL]"
  have "a = take (Suc (length s)) a @ drop (Suc (length s)) a"
    by simp
  then have "a = s @ NUL # drop (Suc (length s)) a"
    by (simp only: t append_Cons append_Nil append_assoc)
  then have "cstr a = cstr (s @ NUL # drop (Suc (length s)) a)"
    by simp
  then show "cstr a = s"
    by (simp only: cstr_append_NUL [OF assms(1)])
next
  assume c: "cstr a = s"
  have "a = cstr a @ NUL # drop (Suc (length (cstr a))) a"
    by (rule cstr_split) (simp add: c assms(2))
  then have "a = s @ NUL # drop (Suc (length s)) a"
    by (simp only: c)
  then have "take (Suc (length s)) a = take (Suc (length s)) (s @ NUL # drop (Suc (length s)) a)"
    by simp
  then show "take (Suc (length s)) a = s @ [NUL]"
    by simp
qed

lemma su_match_iff:
  assumes "length bs = 16"
  shows "take 15 bs = c_array SU_PATH \<longleftrightarrow> cstr bs = SU_PATH"
proof -
  have n: "NUL \<notin> set SU_PATH" by (simp add: SU_PATH_def)
  have l: "length SU_PATH = 14" by (simp add: SU_PATH_def)
  show ?thesis
    using memcmp_is_cstr_eq [OF n, of bs] assms l by (simp add: c_array_def)
qed

lemma raw_copy_to_user_frame:
  "a \<notin> set (user_range p (length d)) \<Longrightarrow> mem (snd (raw_copy_to_user t p d)) a = mem t a"
  by (induction d arbitrary: t p) (auto simp: user_range_Suc)

lemma user_range_no_wrap:
  assumes "n < 2 ^ 64"
  shows "(p :: addr) \<notin> set (user_range (p + 1) n)"
proof
  assume "p \<in> set (user_range (p + 1) n)"
  then obtain i where i: "i < n" and e: "p = p + 1 + of_nat i"
    by (auto simp: user_range_def)
  from e have "p + 0 = p + (of_nat (Suc i) :: addr)"
    by (simp add: add.assoc)
  then have "(of_nat (Suc i) :: addr) = 0"
    by (simp only: add_left_cancel)
  then have "2 ^ LENGTH(64) dvd Suc i"
    by (simp only: word_of_nat_eq_0_iff)
  then have "(2 :: nat) ^ 64 \<le> Suc i"
    by (auto dest: dvd_imp_le)
  with i assms show False by simp
qed

lemma raw_copy_to_user_readback:
  assumes "list_all (writable t) (user_range p (length d))" "length d \<le> 2 ^ 64"
  shows "raw_copy_from_user (snd (raw_copy_to_user t p d)) p (length d) = (0, d)"
  using assms
proof (induction d arbitrary: t p)
  case Nil
  then show ?case by simp
next
  case (Cons c cs)
  let ?t1 = "t\<lparr>mem := (mem t)(p \<mapsto> c)\<rparr>"
  from Cons.prems have w: "writable t p" and ws: "list_all (writable ?t1) (user_range (p + 1) (length cs))"
    by (simp_all add: user_range_Suc)
  from Cons.prems have len: "length cs < 2 ^ 64" by simp
  have "mem (snd (raw_copy_to_user ?t1 (p + 1) cs)) p = mem ?t1 p"
    by (rule raw_copy_to_user_frame) (rule user_range_no_wrap [OF len])
  then have m: "mem (snd (raw_copy_to_user ?t1 (p + 1) cs)) p = Some c" by simp
  have ih: "raw_copy_from_user (snd (raw_copy_to_user ?t1 (p + 1) cs)) (p + 1) (length cs) = (0, cs)"
    using Cons.IH [OF ws] len by simp
  show ?case using w m ih by simp
qed


lemma staging_ok_iff: "staging_ok t d = stageable t d"
  by (simp add: staging_ok_def stageable_def copy_to_user_def raw_copy_to_user_ok)

lemma read_logged_eq:
  "read_logged t p n =
     t\<lparr>trace := trace t @ Ev_copy_from_user_nofault p n #
         (if fst (ksu_copy_from_user_nofault t p n) = 0 then [] else [Ev_copy_from_user p n])\<rparr>"
  by (simp add: read_logged_def retry_result ksu_copy_from_user_nofault_def Let_def EFAULT_def
      log_event_def)

lemma stack_buffer_result:
  "userspace_stack_buffer t d =
     (if stageable t d then current_user_stack_pointer t - of_nat (length d) else 0,
      snd (copy_to_user t (current_user_stack_pointer t - of_nat (length d)) d))"
proof -
  let ?q = "current_user_stack_pointer t - of_nat (length d)"
  have "stageable t d \<longleftrightarrow> fst (copy_to_user t ?q d) = 0"
    by (simp add: stageable_def copy_to_user_def raw_copy_to_user_ok)
  then show ?thesis
    by (cases "fst (copy_to_user t ?q d) = 0")
       (simp_all add: userspace_stack_buffer_def Let_def case_prod_beta)
qed

lemma stageable_cong:
  "writable t' = writable t \<Longrightarrow> current_user_stack_pointer t' = current_user_stack_pointer t
     \<Longrightarrow> stageable t' d = stageable t d"
  by (simp add: stageable_def)

lemma stageable_logged [simp]:
  "stageable (pr_info m (read_logged t p n)) d = stageable t d"
  by (rule stageable_cong) (simp_all add: pr_info_def)

lemma copy_to_user_trace:
  "trace (snd (copy_to_user t q d)) = trace t @ [Ev_copy_to_user q (length d)]"
  by (simp add: copy_to_user_def raw_copy_to_user_fields)

lemma copy_to_user_readback:
  "stageable t d \<Longrightarrow> length d \<le> 2 ^ 64 \<Longrightarrow>
     raw_copy_from_user (snd (copy_to_user t (current_user_stack_pointer t - of_nat (length d)) d))
       (current_user_stack_pointer t - of_nat (length d)) (length d) = (0, d)"
  unfolding copy_to_user_def stageable_def
  by (rule raw_copy_to_user_readback) simp_all

lemma sp_logged [simp]:
  "current_user_stack_pointer (pr_info m (read_logged t p n)) = current_user_stack_pointer t"
  by (simp add: pr_info_def)

lemma matched_execve:
  assumes "ksu_sucompat_non_kp t" "ksu_is_allow_uid t (current_uid t)"
    and "raw_copy_from_user t p 16 = (0, bs)" "cstr bs = SU_PATH"
  shows "ksu_handle_execve_sucompat K t (Some p) =
     (0, Some (if staging_ok t (c_array K)
               then current_user_stack_pointer t - of_nat (length (c_array K)) else 0),
      ksu_escape_to_root (snd (copy_to_user (pr_info ''sys_execve su found'' (read_logged t p 16))
         (current_user_stack_pointer t - of_nat (length (c_array K))) (c_array K))))"
proof -
  have "length bs = 16" using length_raw_copy_from_user [of t p 16] assms(3) by simp
  then have "take 15 bs = c_array SU_PATH" using su_match_iff assms(4) by simp
  then show ?thesis
    using assms(3)
    by (simp add: ksu_handle_execve_sucompat_def common_enabled [OF assms(1,2)]
        ksud_user_path_def stack_buffer_result staging_ok_iff)
qed

lemma matched_check:
  assumes "ksu_sucompat_non_kp t" "ksu_is_allow_uid t (current_uid t)"
    and "raw_copy_from_user t p 16 = (0, bs)" "cstr bs = SU_PATH"
  shows "ksu_sucompat_common K t (Some p) nm False =
     (0, Some (if staging_ok t (c_array SH_PATH)
               then current_user_stack_pointer t - of_nat (length (c_array SH_PATH)) else 0),
      snd (copy_to_user (pr_info (nm @ '' su->sh!'') (read_logged t p 16))
         (current_user_stack_pointer t - of_nat (length (c_array SH_PATH))) (c_array SH_PATH)))"
proof -
  have "length bs = 16" using length_raw_copy_from_user [of t p 16] assms(3) by simp
  then have "take 15 bs = c_array SU_PATH" using su_match_iff assms(4) by simp
  then show ?thesis
    using assms(3)
    by (simp add: common_enabled [OF assms(1,2)] sh_user_path_def stack_buffer_result
        staging_ok_iff flip: SH_PATH_def)
qed

lemma mismatched:
  assumes "ksu_sucompat_non_kp t" "ksu_is_allow_uid t (current_uid t)"
    and "raw_copy_from_user t p 16 = (0, bs)" "cstr bs \<noteq> SU_PATH"
  shows "ksu_sucompat_common K t (Some p) nm esc = (0, Some p, read_logged t p 16)"
proof -
  have "length bs = 16" using length_raw_copy_from_user [of t p 16] assms(3) by simp
  then have "take 15 bs \<noteq> c_array SU_PATH" using su_match_iff assms(4) by simp
  then show ?thesis
    using assms(3) by (simp add: common_enabled [OF assms(1,2)])
qed

subsection \<open>The claims about the hooks\<close>

text \<open>
  C1. A caller whose uid is not in the allow-list: each of the three hooks returns 0 and
  leaves the slot and the whole task as they were, so nothing is rewritten, nothing is
  read or written in user memory, and \<^verbatim>\<open>ksu_escape_to_root\<close> is not called.
\<close>

theorem not_allowed_passes_through:
  "\<not> ksu_is_allow_uid t (current_uid t) \<Longrightarrow>
     ksu_handle_faccessat K t filename_user = (0, filename_user, t) \<and>
     ksu_handle_stat K t filename_user = (0, filename_user, t) \<and>
     ksu_handle_execve_sucompat K t filename_user = (0, filename_user, t)"
  by (simp add: ksu_handle_faccessat_def ksu_handle_stat_def ksu_handle_execve_sucompat_def
      ksu_sucompat_common_def Let_def)

theorem not_allowed_passes_through_witness:
  "\<not> ksu_is_allow_uid (user_task True 10001 (c_array SU_PATH @ [NUL]) True)
        (current_uid (user_task True 10001 (c_array SU_PATH @ [NUL]) True)) \<and>
   ksu_handle_execve_sucompat ''/data/adb/ksud''
       (user_task True 10001 (c_array SU_PATH @ [NUL]) True) (Some 0x7000)
     = (0, Some 0x7000, user_task True 10001 (c_array SU_PATH @ [NUL]) True)"
  using not_allowed_passes_through
    [of "user_task True 10001 (c_array SU_PATH @ [NUL]) True" "''/data/adb/ksud''" "Some 0x7000"]
  by (simp add: user_task_def)

text \<open>
  C3. Every hook returns 0 on every input. When the read of the target fails
  (\<^verbatim>\<open>ksu_copy_from_user_retry\<close> returns non-zero), the slot still holds the
  original pointer and the task differs only by the read events in its trace. The read
  itself always starts with \<^verbatim>\<open>ksu_copy_from_user_nofault\<close>, and
  \<^verbatim>\<open>copy_from_user\<close> runs after it exactly when the fast copy did not return 0.
\<close>

theorem read_failure_is_swallowed:
  "fst (ksu_handle_faccessat K t filename_user) = 0 \<and>
   fst (ksu_handle_stat K t filename_user) = 0 \<and>
   fst (ksu_handle_execve_sucompat K t filename_user) = 0 \<and>
   (fst (ksu_copy_from_user_retry t p (length (c_array SU_PATH) + 1)) \<noteq> 0 \<longrightarrow>
      (\<exists>evs. set evs \<subseteq> {Ev_copy_from_user_nofault p 16, Ev_copy_from_user p 16} \<and>
         ksu_handle_faccessat K t (Some p) = (0, Some p, t\<lparr>trace := trace t @ evs\<rparr>) \<and>
         ksu_handle_stat K t (Some p) = (0, Some p, t\<lparr>trace := trace t @ evs\<rparr>) \<and>
         ksu_handle_execve_sucompat K t (Some p) = (0, Some p, t\<lparr>trace := trace t @ evs\<rparr>))) \<and>
   trace (snd (snd (ksu_copy_from_user_retry t p n))) =
     trace t @ Ev_copy_from_user_nofault p n #
       (if fst (ksu_copy_from_user_nofault t p n) = 0 then [] else [Ev_copy_from_user p n])"
proof -
  have ret: "fst (ksu_handle_faccessat K t filename_user) = 0 \<and>
      fst (ksu_handle_stat K t filename_user) = 0 \<and>
      fst (ksu_handle_execve_sucompat K t filename_user) = 0"
    by (simp add: ksu_handle_faccessat_def ksu_handle_stat_def ksu_handle_execve_sucompat_def
        common_returns_0)
  have tr: "trace (snd (snd (ksu_copy_from_user_retry t p n))) =
     trace t @ Ev_copy_from_user_nofault p n #
       (if fst (ksu_copy_from_user_nofault t p n) = 0 then [] else [Ev_copy_from_user p n])"
    using trace_read_logged [of t p n] by (simp add: read_logged_def)
  have fail: "\<exists>evs. set evs \<subseteq> {Ev_copy_from_user_nofault p 16, Ev_copy_from_user p 16} \<and>
         ksu_handle_faccessat K t (Some p) = (0, Some p, t\<lparr>trace := trace t @ evs\<rparr>) \<and>
         ksu_handle_stat K t (Some p) = (0, Some p, t\<lparr>trace := trace t @ evs\<rparr>) \<and>
         ksu_handle_execve_sucompat K t (Some p) = (0, Some p, t\<lparr>trace := trace t @ evs\<rparr>)"
    if f: "fst (ksu_copy_from_user_retry t p (length (c_array SU_PATH) + 1)) \<noteq> 0"
  proof (cases "ksu_sucompat_non_kp t \<and> ksu_is_allow_uid t (current_uid t)")
    case True
    let ?evs = "Ev_copy_from_user_nofault p 16 #
         (if fst (ksu_copy_from_user_nofault t p 16) = 0 then [] else [Ev_copy_from_user p 16])"
    have "set ?evs \<subseteq> {Ev_copy_from_user_nofault p 16, Ev_copy_from_user p 16}" by simp
    moreover have "read_logged t p 16 = t\<lparr>trace := trace t @ ?evs\<rparr>"
      by (rule read_logged_eq)
    ultimately show ?thesis
      using True common_read_failure [OF f]
      by (simp only: ksu_handle_faccessat_def ksu_handle_stat_def ksu_handle_execve_sucompat_def
          su_array_length) (rule exI [of _ ?evs], simp)
  next
    case False
    have "t\<lparr>trace := trace t @ []\<rparr> = t" by simp
    then show ?thesis
      using False common_read_failure [OF f]
      by (simp only: ksu_handle_faccessat_def ksu_handle_stat_def ksu_handle_execve_sucompat_def
          su_array_length) (rule exI [of _ "[]"], simp)
  qed
  show ?thesis using ret tr fail by blast
qed


theorem read_failure_is_swallowed_witness:
  "fst (ksu_copy_from_user_retry (user_task True 10123 (c_array SU_PATH) True) 0x7000
          (length (c_array SU_PATH) + 1)) \<noteq> 0 \<and>
   fst (ksu_handle_execve_sucompat ''/data/adb/ksud''
          (user_task True 10123 (c_array SU_PATH) True) (Some 0x7000)) = 0 \<and>
   fst (snd (ksu_handle_execve_sucompat ''/data/adb/ksud''
          (user_task True 10123 (c_array SU_PATH) True) (Some 0x7000))) = Some 0x7000"
proof -
  let ?t = "user_task True 10123 (c_array SU_PATH) True"
  have f: "fst (ksu_copy_from_user_retry ?t 0x7000 (length (c_array SU_PATH) + 1)) \<noteq> 0"
    by code_simp
  from read_failure_is_swallowed [of "''/data/adb/ksud''" ?t "Some 0x7000" "0x7000" 16] f
  obtain evs where
    "ksu_handle_execve_sucompat ''/data/adb/ksud'' ?t (Some 0x7000)
       = (0, Some 0x7000, ?t\<lparr>trace := trace ?t @ evs\<rparr>)"
    by blast
  then show ?thesis using f by simp
qed

text \<open>
  C10. An allow-listed caller, hooks enabled, the sixteen bytes at the target read
  and holding the trigger path: when the copy that stages the replacement string
  below the user stack pointer fails, the slot is overwritten with the null pointer, on
  the check and stat hooks and on the execute hook alike; the execute hook still calls
  \<^verbatim>\<open>ksu_escape_to_root\<close>.
\<close>

theorem staging_failure_nulls_target:
  assumes "ksu_sucompat_non_kp t" and "ksu_is_allow_uid t (current_uid t)"
    and "raw_copy_from_user t p 16 = (0, bs)" and "cstr bs = SU_PATH"
  shows "(\<not> staging_ok t (c_array SH_PATH) \<longrightarrow>
            fst (snd (ksu_handle_faccessat K t (Some p))) = Some 0 \<and>
            fst (snd (ksu_handle_stat K t (Some p))) = Some 0) \<and>
         (\<not> staging_ok t (c_array K) \<longrightarrow>
            fst (snd (ksu_handle_execve_sucompat K t (Some p))) = Some 0 \<and>
            last (trace (snd (snd (ksu_handle_execve_sucompat K t (Some p))))) = Ev_escape_to_root)"
  using matched_execve [OF assms, of K] matched_check [OF assms, of K]
  by (simp add: ksu_handle_faccessat_def ksu_handle_stat_def ksu_escape_to_root_def)

theorem staging_failure_nulls_target_witness:
  "ksu_sucompat_non_kp (user_task True 10123 (c_array SU_PATH @ [NUL]) False) \<and>
   ksu_is_allow_uid (user_task True 10123 (c_array SU_PATH @ [NUL]) False)
     (current_uid (user_task True 10123 (c_array SU_PATH @ [NUL]) False)) \<and>
   raw_copy_from_user (user_task True 10123 (c_array SU_PATH @ [NUL]) False) 0x7000 16
     = (0, c_array SU_PATH @ [NUL]) \<and>
   cstr (c_array SU_PATH @ [NUL]) = SU_PATH \<and>
   \<not> staging_ok (user_task True 10123 (c_array SU_PATH @ [NUL]) False) (c_array SH_PATH) \<and>
   \<not> staging_ok (user_task True 10123 (c_array SU_PATH @ [NUL]) False) (c_array ''/data/adb/ksud'') \<and>
   fst (snd (ksu_handle_stat ''/data/adb/ksud''
      (user_task True 10123 (c_array SU_PATH @ [NUL]) False) (Some 0x7000))) = Some 0 \<and>
   fst (snd (ksu_handle_execve_sucompat ''/data/adb/ksud''
      (user_task True 10123 (c_array SU_PATH @ [NUL]) False) (Some 0x7000))) = Some 0"
proof -
  let ?t = "user_task True 10123 (c_array SU_PATH @ [NUL]) False"
  have en: "ksu_sucompat_non_kp ?t" by (simp add: user_task_def)
  have al: "ksu_is_allow_uid ?t (current_uid ?t)" by (simp add: user_task_def)
  have rd: "raw_copy_from_user ?t 0x7000 16 = (0, c_array SU_PATH @ [NUL])" by code_simp
  have eq: "cstr (c_array SU_PATH @ [NUL]) = SU_PATH" by code_simp
  have n1: "\<not> staging_ok ?t (c_array SH_PATH)" by code_simp
  have n2: "\<not> staging_ok ?t (c_array ''/data/adb/ksud'')" by code_simp
  show ?thesis
    using staging_failure_nulls_target [OF en al rd eq, of "''/data/adb/ksud''"] en al rd eq n1 n2
    by simp
qed

lemma read_events:
  "\<exists>evs. set evs \<subseteq> {Ev_copy_from_user_nofault p n, Ev_copy_from_user p n} \<and>
     read_logged t p n = t\<lparr>trace := trace t @ evs\<rparr>"
proof -
  let ?evs = "Ev_copy_from_user_nofault p n #
         (if fst (ksu_copy_from_user_nofault t p n) = 0 then [] else [Ev_copy_from_user p n])"
  have "set ?evs \<subseteq> {Ev_copy_from_user_nofault p n, Ev_copy_from_user p n}" by simp
  moreover have "read_logged t p n = t\<lparr>trace := trace t @ ?evs\<rparr>"
    by (rule read_logged_eq)
  ultimately show ?thesis by blast
qed

lemma staged_readback:
  assumes "staging_ok t d" "length d \<le> 2 ^ 64"
  shows "raw_copy_from_user
           (snd (copy_to_user (pr_info m (read_logged t p n))
              (current_user_stack_pointer t - of_nat (length d)) d))
           (current_user_stack_pointer t - of_nat (length d)) (length d) = (0, d)"
proof -
  let ?t1 = "pr_info m (read_logged t p n)"
  have "stageable ?t1 d" using assms(1) by (simp add: staging_ok_iff)
  from copy_to_user_readback [OF this assms(2)] show ?thesis by simp
qed

text \<open>
  C2, as the code has it. An allow-listed caller while the hooks are enabled, with the
  sixteen bytes at the target readable: if the string there is the trigger path and the
  staging copy succeeds, the execute hook stores in the slot a pointer to a copy of the
  helper's path placed below the user stack pointer and calls
  \<^verbatim>\<open>ksu_escape_to_root\<close>, and the check and stat hooks store a pointer to a copy of
  "/system/bin/sh" and do not escalate; if the string differs from the trigger path in
  any byte (a longer path that starts with it included), the three hooks leave the slot
  and user memory as they were.
\<close>

theorem exact_match_is_rewritten:
  assumes "ksu_sucompat_non_kp t" and "ksu_is_allow_uid t (current_uid t)"
    and "raw_copy_from_user t p 16 = (0, bs)"
  shows
    "(cstr bs = SU_PATH \<and> staging_ok t (c_array K) \<and> length K < 2 ^ 64 \<longrightarrow>
        (\<exists>t' evs. ksu_handle_execve_sucompat K t (Some p)
             = (0, Some (current_user_stack_pointer t - of_nat (length (c_array K))), t') \<and>
           raw_copy_from_user t' (current_user_stack_pointer t - of_nat (length (c_array K)))
             (length (c_array K)) = (0, c_array K) \<and>
           set evs \<subseteq> {Ev_copy_from_user_nofault p 16, Ev_copy_from_user p 16} \<and>
           trace t' = trace t @ evs @
             [Ev_pr_info ''sys_execve su found'',
              Ev_copy_to_user (current_user_stack_pointer t - of_nat (length (c_array K)))
                (length (c_array K)),
              Ev_escape_to_root])) \<and>
     (cstr bs = SU_PATH \<and> staging_ok t (c_array SH_PATH) \<longrightarrow>
        (\<exists>t' evs. ksu_handle_faccessat K t (Some p)
             = (0, Some (current_user_stack_pointer t - 15), t') \<and>
           raw_copy_from_user t' (current_user_stack_pointer t - 15) 15 = (0, c_array SH_PATH) \<and>
           set evs \<subseteq> {Ev_copy_from_user_nofault p 16, Ev_copy_from_user p 16} \<and>
           trace t' = trace t @ evs @
             [Ev_pr_info ''faccessat su->sh!'',
              Ev_copy_to_user (current_user_stack_pointer t - 15) 15]) \<and>
        (\<exists>t' evs. ksu_handle_stat K t (Some p)
             = (0, Some (current_user_stack_pointer t - 15), t') \<and>
           raw_copy_from_user t' (current_user_stack_pointer t - 15) 15 = (0, c_array SH_PATH) \<and>
           set evs \<subseteq> {Ev_copy_from_user_nofault p 16, Ev_copy_from_user p 16} \<and>
           trace t' = trace t @ evs @
             [Ev_pr_info ''newfstatat su->sh!'',
              Ev_copy_to_user (current_user_stack_pointer t - 15) 15])) \<and>
     (cstr bs \<noteq> SU_PATH \<longrightarrow>
        (\<exists>evs. set evs \<subseteq> {Ev_copy_from_user_nofault p 16, Ev_copy_from_user p 16} \<and>
           ksu_handle_faccessat K t (Some p) = (0, Some p, t\<lparr>trace := trace t @ evs\<rparr>) \<and>
           ksu_handle_stat K t (Some p) = (0, Some p, t\<lparr>trace := trace t @ evs\<rparr>) \<and>
           ksu_handle_execve_sucompat K t (Some p) = (0, Some p, t\<lparr>trace := trace t @ evs\<rparr>)))"
proof -
  obtain evs where evs: "set evs \<subseteq> {Ev_copy_from_user_nofault p 16, Ev_copy_from_user p 16}"
    and rl: "read_logged t p 16 = t\<lparr>trace := trace t @ evs\<rparr>"
    using read_events [of p 16 t] by blast
  have trl: "trace (read_logged t p 16) = trace t @ evs"
    by (simp add: rl)
  have sh_len: "length (c_array SH_PATH) = 15"
    by (simp add: c_array_def SH_PATH_def)
  have A: "\<exists>t' evs. ksu_handle_execve_sucompat K t (Some p)
             = (0, Some (current_user_stack_pointer t - of_nat (length (c_array K))), t') \<and>
           raw_copy_from_user t' (current_user_stack_pointer t - of_nat (length (c_array K)))
             (length (c_array K)) = (0, c_array K) \<and>
           set evs \<subseteq> {Ev_copy_from_user_nofault p 16, Ev_copy_from_user p 16} \<and>
           trace t' = trace t @ evs @
             [Ev_pr_info ''sys_execve su found'',
              Ev_copy_to_user (current_user_stack_pointer t - of_nat (length (c_array K)))
                (length (c_array K)),
              Ev_escape_to_root]"
    if m: "cstr bs = SU_PATH" and st: "staging_ok t (c_array K)" and len: "length K < 2 ^ 64"
  proof -
    let ?q = "current_user_stack_pointer t - of_nat (length (c_array K))"
    let ?t2 = "snd (copy_to_user (pr_info ''sys_execve su found'' (read_logged t p 16)) ?q (c_array K))"
    have r: "ksu_handle_execve_sucompat K t (Some p) = (0, Some ?q, ksu_escape_to_root ?t2)"
      using matched_execve [OF assms m, of K] st by simp
    have l2: "length (c_array K) \<le> 2 ^ 64" using len by (simp add: c_array_def)
    have rb: "raw_copy_from_user (ksu_escape_to_root ?t2) ?q (length (c_array K)) = (0, c_array K)"
      using staged_readback [OF st l2, of "''sys_execve su found''" p 16]
      by (simp add: ksu_escape_to_root_def)
    have tr: "trace (ksu_escape_to_root ?t2) = trace t @ evs @
             [Ev_pr_info ''sys_execve su found'', Ev_copy_to_user ?q (length (c_array K)),
              Ev_escape_to_root]"
      by (simp add: ksu_escape_to_root_def copy_to_user_trace pr_info_def trl)
    show ?thesis using r rb tr evs by blast
  qed
  have B: "\<exists>t' evs. ksu_sucompat_common K t (Some p) nm False
             = (0, Some (current_user_stack_pointer t - 15), t') \<and>
           raw_copy_from_user t' (current_user_stack_pointer t - 15) 15 = (0, c_array SH_PATH) \<and>
           set evs \<subseteq> {Ev_copy_from_user_nofault p 16, Ev_copy_from_user p 16} \<and>
           trace t' = trace t @ evs @
             [Ev_pr_info (nm @ '' su->sh!''),
              Ev_copy_to_user (current_user_stack_pointer t - 15) 15]"
    if m: "cstr bs = SU_PATH" and st: "staging_ok t (c_array SH_PATH)" for nm
  proof -
    let ?q = "current_user_stack_pointer t - 15"
    let ?t2 = "snd (copy_to_user (pr_info (nm @ '' su->sh!'') (read_logged t p 16)) ?q (c_array SH_PATH))"
    have r: "ksu_sucompat_common K t (Some p) nm False = (0, Some ?q, ?t2)"
      using matched_check [OF assms m, of K nm] st by (simp add: sh_len)
    have l2: "length (c_array SH_PATH) \<le> 2 ^ 64" by (simp add: sh_len)
    have rb: "raw_copy_from_user ?t2 ?q 15 = (0, c_array SH_PATH)"
      using staged_readback [OF st l2, of "nm @ '' su->sh!''" p 16]
      by (simp add: sh_len)
    have tr: "trace ?t2 = trace t @ evs @
             [Ev_pr_info (nm @ '' su->sh!''), Ev_copy_to_user ?q 15]"
      by (simp add: copy_to_user_trace pr_info_def trl sh_len)
    show ?thesis using r rb tr evs by blast
  qed
  have C: "\<exists>evs. set evs \<subseteq> {Ev_copy_from_user_nofault p 16, Ev_copy_from_user p 16} \<and>
           ksu_handle_faccessat K t (Some p) = (0, Some p, t\<lparr>trace := trace t @ evs\<rparr>) \<and>
           ksu_handle_stat K t (Some p) = (0, Some p, t\<lparr>trace := trace t @ evs\<rparr>) \<and>
           ksu_handle_execve_sucompat K t (Some p) = (0, Some p, t\<lparr>trace := trace t @ evs\<rparr>)"
    if m: "cstr bs \<noteq> SU_PATH"
    using mismatched [OF assms m, of K] evs rl
    by (simp only: ksu_handle_faccessat_def ksu_handle_stat_def ksu_handle_execve_sucompat_def)
       blast
  have B1: "\<exists>t' evs. ksu_handle_faccessat K t (Some p)
             = (0, Some (current_user_stack_pointer t - 15), t') \<and>
           raw_copy_from_user t' (current_user_stack_pointer t - 15) 15 = (0, c_array SH_PATH) \<and>
           set evs \<subseteq> {Ev_copy_from_user_nofault p 16, Ev_copy_from_user p 16} \<and>
           trace t' = trace t @ evs @
             [Ev_pr_info ''faccessat su->sh!'',
              Ev_copy_to_user (current_user_stack_pointer t - 15) 15]"
    if m: "cstr bs = SU_PATH" and st: "staging_ok t (c_array SH_PATH)"
    using B [OF m st, of "''faccessat''"] by (simp add: ksu_handle_faccessat_def)
  have B2: "\<exists>t' evs. ksu_handle_stat K t (Some p)
             = (0, Some (current_user_stack_pointer t - 15), t') \<and>
           raw_copy_from_user t' (current_user_stack_pointer t - 15) 15 = (0, c_array SH_PATH) \<and>
           set evs \<subseteq> {Ev_copy_from_user_nofault p 16, Ev_copy_from_user p 16} \<and>
           trace t' = trace t @ evs @
             [Ev_pr_info ''newfstatat su->sh!'',
              Ev_copy_to_user (current_user_stack_pointer t - 15) 15]"
    if m: "cstr bs = SU_PATH" and st: "staging_ok t (c_array SH_PATH)"
    using B [OF m st, of "''newfstatat''"] by (simp add: ksu_handle_stat_def)
  show ?thesis
    using A B1 B2 C by (intro conjI impI) (elim conjE, assumption?)+
qed


theorem exact_match_is_rewritten_witness:
  "ksu_sucompat_non_kp (user_task True 10123 (c_array SU_PATH @ [NUL]) True) \<and>
   ksu_is_allow_uid (user_task True 10123 (c_array SU_PATH @ [NUL]) True)
     (current_uid (user_task True 10123 (c_array SU_PATH @ [NUL]) True)) \<and>
   raw_copy_from_user (user_task True 10123 (c_array SU_PATH @ [NUL]) True) 0x7000 16
     = (0, c_array SU_PATH @ [NUL]) \<and>
   cstr (c_array SU_PATH @ [NUL]) = SU_PATH \<and>
   staging_ok (user_task True 10123 (c_array SU_PATH @ [NUL]) True) (c_array ''/data/adb/ksud'') \<and>
   staging_ok (user_task True 10123 (c_array SU_PATH @ [NUL]) True) (c_array SH_PATH) \<and>
   fst (snd (ksu_handle_execve_sucompat ''/data/adb/ksud''
      (user_task True 10123 (c_array SU_PATH @ [NUL]) True) (Some 0x7000))) = Some 0x7FF1 \<and>
   fst (snd (ksu_handle_stat ''/data/adb/ksud''
      (user_task True 10123 (c_array SU_PATH @ [NUL]) True) (Some 0x7000))) = Some 0x7FF1 \<and>
   raw_copy_from_user (user_task True 10123 (c_array ''/system/bin/su2'') True) 0x7000 16
     = (0, c_array ''/system/bin/su2'') \<and>
   cstr (c_array ''/system/bin/su2'') \<noteq> SU_PATH \<and>
   fst (snd (ksu_handle_execve_sucompat ''/data/adb/ksud''
      (user_task True 10123 (c_array ''/system/bin/su2'') True) (Some 0x7000))) = Some 0x7000"
proof -
  let ?t = "user_task True 10123 (c_array SU_PATH @ [NUL]) True"
  let ?u = "user_task True 10123 (c_array ''/system/bin/su2'') True"
  let ?K = "''/data/adb/ksud''"
  have en: "ksu_sucompat_non_kp ?t" by (simp add: user_task_def)
  have al: "ksu_is_allow_uid ?t (current_uid ?t)" by (simp add: user_task_def)
  have rd: "raw_copy_from_user ?t 0x7000 16 = (0, c_array SU_PATH @ [NUL])" by code_simp
  have eq: "cstr (c_array SU_PATH @ [NUL]) = SU_PATH" by code_simp
  have s1: "staging_ok ?t (c_array ?K)" by code_simp
  have s2: "staging_ok ?t (c_array SH_PATH)" by code_simp
  have q1: "current_user_stack_pointer ?t - of_nat (length (c_array ?K)) = 0x7FF1"
    by (simp add: user_task_def c_array_def)
  have q2: "current_user_stack_pointer ?t - 15 = 0x7FF1"
    by (simp add: user_task_def)
  have lk: "length ?K < (2 :: nat) ^ 64" by simp
  have en': "ksu_sucompat_non_kp ?u" by (simp add: user_task_def)
  have al': "ksu_is_allow_uid ?u (current_uid ?u)" by (simp add: user_task_def)
  have rd': "raw_copy_from_user ?u 0x7000 16 = (0, c_array ''/system/bin/su2'')" by code_simp
  have ne: "cstr (c_array ''/system/bin/su2'') \<noteq> SU_PATH" by code_simp
  note m = exact_match_is_rewritten [OF en al rd, of ?K]
  note n = exact_match_is_rewritten [OF en' al' rd', of ?K]
  from m eq s1 lk obtain t' where
    "ksu_handle_execve_sucompat ?K ?t (Some 0x7000)
       = (0, Some (current_user_stack_pointer ?t - of_nat (length (c_array ?K))), t')"
    by blast
  then have x: "fst (snd (ksu_handle_execve_sucompat ?K ?t (Some 0x7000))) = Some 0x7FF1"
    unfolding q1 by simp
  from m eq s2 obtain t'' where
    "ksu_handle_stat ?K ?t (Some 0x7000) = (0, Some (current_user_stack_pointer ?t - 15), t'')"
    by blast
  then have y: "fst (snd (ksu_handle_stat ?K ?t (Some 0x7000))) = Some 0x7FF1"
    unfolding q2 by simp
  from n ne obtain evs where
    "ksu_handle_execve_sucompat ?K ?u (Some 0x7000) = (0, Some 0x7000, ?u\<lparr>trace := trace ?u @ evs\<rparr>)"
    by blast
  then have z: "fst (snd (ksu_handle_execve_sucompat ?K ?u (Some 0x7000))) = Some 0x7000"
    by simp
  show ?thesis using en al rd eq s1 s2 x y rd' ne z by simp
qed

text \<open>
  C2 as stated fails: with the hooks disabled an allow-listed request for the trigger
  path passes through unchanged, and with the hooks enabled but the user stack not
  writable the slot receives the null pointer instead of the helper's or the shell's
  path.
\<close>

theorem exact_match_not_always_rewritten:
  "ksu_is_allow_uid (user_task False 10123 (c_array SU_PATH @ [NUL]) True)
     (current_uid (user_task False 10123 (c_array SU_PATH @ [NUL]) True)) \<and>
   raw_copy_from_user (user_task False 10123 (c_array SU_PATH @ [NUL]) True) 0x7000 16
     = (0, c_array SU_PATH @ [NUL]) \<and>
   cstr (c_array SU_PATH @ [NUL]) = SU_PATH \<and>
   ksu_handle_execve_sucompat ''/data/adb/ksud''
       (user_task False 10123 (c_array SU_PATH @ [NUL]) True) (Some 0x7000)
     = (0, Some 0x7000, user_task False 10123 (c_array SU_PATH @ [NUL]) True) \<and>
   ksu_handle_stat ''/data/adb/ksud''
       (user_task False 10123 (c_array SU_PATH @ [NUL]) True) (Some 0x7000)
     = (0, Some 0x7000, user_task False 10123 (c_array SU_PATH @ [NUL]) True) \<and>
   ksu_is_allow_uid (user_task True 10123 (c_array SU_PATH @ [NUL]) False)
     (current_uid (user_task True 10123 (c_array SU_PATH @ [NUL]) False)) \<and>
   raw_copy_from_user (user_task True 10123 (c_array SU_PATH @ [NUL]) False) 0x7000 16
     = (0, c_array SU_PATH @ [NUL]) \<and>
   fst (snd (ksu_handle_execve_sucompat ''/data/adb/ksud''
       (user_task True 10123 (c_array SU_PATH @ [NUL]) False) (Some 0x7000))) = Some 0 \<and>
   fst (snd (ksu_handle_stat ''/data/adb/ksud''
       (user_task True 10123 (c_array SU_PATH @ [NUL]) False) (Some 0x7000))) = Some 0"
proof -
  let ?t = "user_task False 10123 (c_array SU_PATH @ [NUL]) True"
  let ?u = "user_task True 10123 (c_array SU_PATH @ [NUL]) False"
  let ?K = "''/data/adb/ksud''"
  have al: "ksu_is_allow_uid ?t (current_uid ?t)" by (simp add: user_task_def)
  have off: "\<not> ksu_sucompat_non_kp ?t" by (simp add: user_task_def)
  have rd: "raw_copy_from_user ?t 0x7000 16 = (0, c_array SU_PATH @ [NUL])" by code_simp
  have eq: "cstr (c_array SU_PATH @ [NUL]) = SU_PATH" by code_simp
  have x: "ksu_handle_execve_sucompat ?K ?t (Some 0x7000) = (0, Some 0x7000, ?t)"
    using off by (simp add: ksu_handle_execve_sucompat_def ksu_sucompat_common_def Let_def)
  have y: "ksu_handle_stat ?K ?t (Some 0x7000) = (0, Some 0x7000, ?t)"
    using off by (simp add: ksu_handle_stat_def ksu_sucompat_common_def Let_def)
  have al': "ksu_is_allow_uid ?u (current_uid ?u)" by (simp add: user_task_def)
  have rd': "raw_copy_from_user ?u 0x7000 16 = (0, c_array SU_PATH @ [NUL])" by code_simp
  have z: "fst (snd (ksu_handle_execve_sucompat ?K ?u (Some 0x7000))) = Some 0" by code_simp
  have w: "fst (snd (ksu_handle_stat ?K ?u (Some 0x7000))) = Some 0" by code_simp
  show ?thesis using al rd eq x y al' rd' z w by simp
qed

section \<open>Properties of the susfs registries\<close>

lemma SUSFS_LOG_fields [simp]:
  "susfs_is_log_enabled (SUSFS_LOG m s) = susfs_is_log_enabled s"
  "kern_path (SUSFS_LOG m s) = kern_path s"
  "i_state (SUSFS_LOG m s) = i_state s"
  "SUS_PATH_HLIST (SUSFS_LOG m s) = SUS_PATH_HLIST s"
  "LH_SUS_MOUNT (SUSFS_LOG m s) = LH_SUS_MOUNT s"
  "LH_TRY_UMOUNT_PATH (SUSFS_LOG m s) = LH_TRY_UMOUNT_PATH s"
  by (simp_all add: SUSFS_LOG_def)

lemma try_umount_body_eq:
  "try_umount_body h uid c s =
     s\<lparr>ktrace := ktrace s @ loop_events h uid (susfs_is_log_enabled s) c\<rparr>"
  by (simp add: try_umount_body_def loop_events_def ksu_try_umount_def SUSFS_LOG_def)

lemma reverse_loop:
  "list_for_each_entry_reverse (try_umount_body h uid) l s =
     s\<lparr>ktrace := ktrace s @ concat (map (loop_events h uid (susfs_is_log_enabled s)) (rev l))\<rparr>"
  by (induction l) (simp_all add: try_umount_body_eq)

lemma add_try_umount_fresh:
  assumes "susfs_add_try_umount h s (Some info) km = (0, s')"
  shows "LH_TRY_UMOUNT_PATH s' = LH_TRY_UMOUNT_PATH s @ [info]"
    and "\<not> list_ex (\<lambda>c. strcmp_eq (umount_target_pathname info) (umount_target_pathname c))
            (LH_TRY_UMOUNT_PATH s)"
    and "susfs_is_log_enabled s' = susfs_is_log_enabled s"
  using assms
  by (auto simp: susfs_add_try_umount_def Let_def split: if_splits option.splits)

text \<open>
  C9. Replay walks the ledger from its tail to its head: the events it appends are those
  of the loop body for each record, in reverse list order. One pass of the body issues
  \<^verbatim>\<open>ksu_try_umount\<close> with flags 0 for the default mode and with
  \<^verbatim>\<open>MNT_DETACH\<close> for the detach mode; for any other mode it only logs (when
  logging is enabled) and the loop goes on. Three registrations A, B, C made in that
  order into an empty ledger give the list [A, B, C], so replay handles C, then B,
  then A.
\<close>

theorem replay_is_reverse_insertion_order:
  "ktrace (try_umount_body h uid c s)
      = ktrace s @ loop_events h uid (susfs_is_log_enabled s) c \<and>
   susfs_try_umount h s uid =
      s\<lparr>ktrace := ktrace s @
           concat (map (loop_events h uid (susfs_is_log_enabled s)) (rev (LH_TRY_UMOUNT_PATH s)))\<rparr> \<and>
   (LH_TRY_UMOUNT_PATH s0 = [] \<and>
    susfs_add_try_umount h s0 (Some A) ka = (0, s1) \<and>
    susfs_add_try_umount h s1 (Some B) kb = (0, s2) \<and>
    susfs_add_try_umount h s2 (Some C) kc = (0, s3) \<longrightarrow>
      LH_TRY_UMOUNT_PATH s3 = [A, B, C] \<and>
      ktrace (susfs_try_umount h s3 uid) =
        ktrace s3 @ loop_events h uid (susfs_is_log_enabled s3) C
                  @ loop_events h uid (susfs_is_log_enabled s3) B
                  @ loop_events h uid (susfs_is_log_enabled s3) A) \<and>
   loop_events h uid logging c =
     (if mnt_mode c = TRY_UMOUNT_DEFAULT h
      then [Ksu_try_umount (cstr (umount_target_pathname c)) False 0 uid]
      else if mnt_mode c = TRY_UMOUNT_DETACH h
      then [Ksu_try_umount (cstr (umount_target_pathname c)) False (MNT_DETACH h) uid]
      else if logging
      then [E_mnt_mode_not_supported (cstr (umount_target_pathname c)) uid (mnt_mode c)]
      else [])"
proof -
  have 4: "loop_events h uid logging c =
     (if mnt_mode c = TRY_UMOUNT_DEFAULT h
      then [Ksu_try_umount (cstr (umount_target_pathname c)) False 0 uid]
      else if mnt_mode c = TRY_UMOUNT_DETACH h
      then [Ksu_try_umount (cstr (umount_target_pathname c)) False (MNT_DETACH h) uid]
      else if logging
      then [E_mnt_mode_not_supported (cstr (umount_target_pathname c)) uid (mnt_mode c)]
      else [])"
    by (simp add: loop_events_def)
  have 1: "ktrace (try_umount_body h uid c s)
      = ktrace s @ loop_events h uid (susfs_is_log_enabled s) c"
    by (simp add: try_umount_body_eq)
  have 2: "susfs_try_umount h s uid =
      s\<lparr>ktrace := ktrace s @
           concat (map (loop_events h uid (susfs_is_log_enabled s)) (rev (LH_TRY_UMOUNT_PATH s)))\<rparr>"
    for s
    by (simp add: susfs_try_umount_def reverse_loop)
  have 3: "LH_TRY_UMOUNT_PATH s3 = [A, B, C] \<and>
      ktrace (susfs_try_umount h s3 uid) =
        ktrace s3 @ loop_events h uid (susfs_is_log_enabled s3) C
                  @ loop_events h uid (susfs_is_log_enabled s3) B
                  @ loop_events h uid (susfs_is_log_enabled s3) A"
    if e: "LH_TRY_UMOUNT_PATH s0 = []"
      and a: "susfs_add_try_umount h s0 (Some A) ka = (0, s1)"
      and b: "susfs_add_try_umount h s1 (Some B) kb = (0, s2)"
      and c: "susfs_add_try_umount h s2 (Some C) kc = (0, s3)"
  proof -
    have l: "LH_TRY_UMOUNT_PATH s3 = [A, B, C]"
      using add_try_umount_fresh(1) [OF a] add_try_umount_fresh(1) [OF b]
        add_try_umount_fresh(1) [OF c] e by simp
    show ?thesis using l by (simp add: 2)
  qed
  show ?thesis using 1 2 3 4 by blast
qed

lemma set_i_state_fields [simp]:
  "susfs_is_log_enabled (set_i_state b i s) = susfs_is_log_enabled s"
  "kern_path (set_i_state b i s) = kern_path s"
  "SUS_PATH_HLIST (set_i_state b i s) = SUS_PATH_HLIST s"
  "LH_SUS_MOUNT (set_i_state b i s) = LH_SUS_MOUNT s"
  "LH_TRY_UMOUNT_PATH (set_i_state b i s) = LH_TRY_UMOUNT_PATH s"
  "ktrace (set_i_state b i s) = ktrace s"
  by (simp_all add: set_i_state_def)

lemma i_state_set_i_state:
  "i_state (set_i_state b i s) =
     (i_state s)(i := if i_state s i AND b = 0 then i_state s i OR b else i_state s i)"
  by (auto simp: set_i_state_def)


text \<open>
  C8, as the code has it, for pathname arrays that are terminated (those of the ledger
  and of the two requests). When a registration succeeds it appends the record. A second
  registration whose pathname is the same string then returns 1, the value every failure
  of this function returns (a faulting copy returns 1 as well); it logs that the path
  is already created when logging is enabled, and the ledger is the one the first
  call left: same length, first record and its mode kept, every array still terminated.
\<close>

theorem duplicate_try_umount_is_rejected:
  assumes "susfs_add_try_umount h s (Some info) kmalloc = (0, s1)"
    and "strcmp_eq (umount_target_pathname info2) (umount_target_pathname info)"
    and "terminated (umount_target_pathname info)"
    and "terminated (umount_target_pathname info2)"
    and "\<forall>c \<in> set (LH_TRY_UMOUNT_PATH s). terminated (umount_target_pathname c)"
  shows "LH_TRY_UMOUNT_PATH s1 = LH_TRY_UMOUNT_PATH s @ [info] \<and>
         (\<forall>c \<in> set (LH_TRY_UMOUNT_PATH s1). terminated (umount_target_pathname c)) \<and>
         susfs_add_try_umount h s1 (Some info2) kmalloc2 =
           (1, SUSFS_LOG (E_already_created (cstr (umount_target_pathname info2))) s1) \<and>
         LH_TRY_UMOUNT_PATH (snd (susfs_add_try_umount h s1 (Some info2) kmalloc2))
           = LH_TRY_UMOUNT_PATH s @ [info] \<and>
         fst (susfs_add_try_umount h s1 None kmalloc2) = 1"
proof -
  have l: "LH_TRY_UMOUNT_PATH s1 = LH_TRY_UMOUNT_PATH s @ [info]"
    by (rule add_try_umount_fresh(1) [OF assms(1)])
  have d: "list_ex (\<lambda>c. strcmp_eq (umount_target_pathname info2) (umount_target_pathname c))
            (LH_TRY_UMOUNT_PATH s1)"
    using assms(2) by (simp add: l)
  have r: "susfs_add_try_umount h s1 (Some info2) kmalloc2 =
           (1, SUSFS_LOG (E_already_created (cstr (umount_target_pathname info2))) s1)"
    using d by (simp add: susfs_add_try_umount_def)
  have n: "fst (susfs_add_try_umount h s1 None kmalloc2) = 1"
    by (simp add: susfs_add_try_umount_def)
  have t: "\<forall>c \<in> set (LH_TRY_UMOUNT_PATH s1). terminated (umount_target_pathname c)"
    using assms(3,5) by (simp add: l)
  show ?thesis using l r n t by simp
qed

lemma update_sus_mount_inode_LH:
  "i_state (susfs_update_sus_mount_inode h (s\<lparr>LH_SUS_MOUNT := l\<rparr>) pn)
     = i_state (susfs_update_sus_mount_inode h s pn)"
  by (simp add: susfs_update_sus_mount_inode_def i_state_set_i_state split: option.splits)

lemma update_sus_mount_inode_fields [simp]:
  "LH_SUS_MOUNT (susfs_update_sus_mount_inode h s pn) = LH_SUS_MOUNT s"
  "kern_path (susfs_update_sus_mount_inode h s pn) = kern_path s"
  "SUS_PATH_HLIST (susfs_update_sus_mount_inode h s pn) = SUS_PATH_HLIST s"
  "LH_TRY_UMOUNT_PATH (susfs_update_sus_mount_inode h s pn) = LH_TRY_UMOUNT_PATH s"
  by (simp_all add: susfs_update_sus_mount_inode_def split: option.splits)

lemma add_sus_mount_i_state:
  "fst (susfs_add_sus_mount h s (Some info) km) = 0 \<Longrightarrow>
     i_state (snd (susfs_add_sus_mount h s (Some info) km))
       = i_state (susfs_update_sus_mount_inode h s (mount_target_pathname info))"
  by (simp add: susfs_add_sus_mount_def Let_def update_sus_mount_inode_LH
      split: option.splits)

lemma add_sus_mount_i_state_fail:
  "fst (susfs_add_sus_mount h s ui km) \<noteq> 0 \<Longrightarrow>
     i_state (snd (susfs_add_sus_mount h s ui km)) = i_state s"
  by (simp add: susfs_add_sus_mount_def Let_def split: option.splits)

text \<open>
  C7. The pathname resolves. If the peer group id of its mount is greater than 0 and
  below \<^verbatim>\<open>DEFAULT_SUS_MNT_GROUP_ID\<close>, neither
  \<^verbatim>\<open>susfs_update_sus_mount_inode\<close> nor a registration through
  \<^verbatim>\<open>susfs_add_sus_mount\<close> changes any inode state. If the id is 0 or at least the
  threshold and the dentry has an inode, the inode has
  \<^verbatim>\<open>INODE_STATE_SUS_MOUNT\<close> set afterwards (it is or-ed in when it was clear).
\<close>

theorem legit_peer_group_is_never_marked:
  assumes "kern_path s (cstr pathname) = Some p"
  shows "(0 < mnt_group_id p \<and> mnt_group_id p < DEFAULT_SUS_MNT_GROUP_ID h \<longrightarrow>
            i_state (susfs_update_sus_mount_inode h s pathname) = i_state s \<and>
            (\<forall>info km. mount_target_pathname info = pathname \<longrightarrow>
               i_state (snd (susfs_add_sus_mount h s (Some info) km)) = i_state s)) \<and>
         ((mnt_group_id p = 0 \<or> DEFAULT_SUS_MNT_GROUP_ID h \<le> mnt_group_id p) \<and>
          d_inode p = Some inode \<and> INODE_STATE_SUS_MOUNT h \<noteq> 0 \<longrightarrow>
            i_state (susfs_update_sus_mount_inode h s pathname) inode
               AND INODE_STATE_SUS_MOUNT h \<noteq> 0 \<and>
            i_state (susfs_update_sus_mount_inode h s pathname) =
              (i_state s)(inode := if i_state s inode AND INODE_STATE_SUS_MOUNT h = 0
                                   then i_state s inode OR INODE_STATE_SUS_MOUNT h
                                   else i_state s inode) \<and>
            (\<forall>info km. mount_target_pathname info = pathname \<and>
                  fst (susfs_add_sus_mount h s (Some info) km) = 0 \<longrightarrow>
               i_state (snd (susfs_add_sus_mount h s (Some info) km)) inode
                 AND INODE_STATE_SUS_MOUNT h \<noteq> 0))"
proof -
  have skip: "i_state (susfs_update_sus_mount_inode h s pathname) = i_state s"
    if "0 < mnt_group_id p \<and> mnt_group_id p < DEFAULT_SUS_MNT_GROUP_ID h"
    using that assms by (simp add: susfs_update_sus_mount_inode_def)
  have skip_add: "i_state (snd (susfs_add_sus_mount h s (Some info) km)) = i_state s"
    if g: "0 < mnt_group_id p \<and> mnt_group_id p < DEFAULT_SUS_MNT_GROUP_ID h"
      and e: "mount_target_pathname info = pathname" for info km
  proof (cases "fst (susfs_add_sus_mount h s (Some info) km) = 0")
    case True
    have "mount_target_pathname (info\<lparr>target_dev := decode_dev h (target_dev info)\<rparr>) = pathname"
      using e by simp
    then show ?thesis
      using add_sus_mount_i_state [OF True] skip [OF g] e by simp
  next
    case False
    then show ?thesis by (rule add_sus_mount_i_state_fail)
  qed
  have mark: "i_state (susfs_update_sus_mount_inode h s pathname) =
              (i_state s)(inode := if i_state s inode AND INODE_STATE_SUS_MOUNT h = 0
                                   then i_state s inode OR INODE_STATE_SUS_MOUNT h
                                   else i_state s inode)"
    if "mnt_group_id p = 0 \<or> DEFAULT_SUS_MNT_GROUP_ID h \<le> mnt_group_id p"
      and "d_inode p = Some inode"
    using that assms
    by (auto simp: susfs_update_sus_mount_inode_def i_state_set_i_state)
  have marked: "i_state (susfs_update_sus_mount_inode h s pathname) inode
               AND INODE_STATE_SUS_MOUNT h \<noteq> 0"
    if g: "mnt_group_id p = 0 \<or> DEFAULT_SUS_MNT_GROUP_ID h \<le> mnt_group_id p"
      and i: "d_inode p = Some inode" and b: "INODE_STATE_SUS_MOUNT h \<noteq> 0"
    using b by (simp add: mark [OF g i] word_ao_absorbs)
  have marked_add: "i_state (snd (susfs_add_sus_mount h s (Some info) km)) inode
                 AND INODE_STATE_SUS_MOUNT h \<noteq> 0"
    if g: "mnt_group_id p = 0 \<or> DEFAULT_SUS_MNT_GROUP_ID h \<le> mnt_group_id p"
      and i: "d_inode p = Some inode" and b: "INODE_STATE_SUS_MOUNT h \<noteq> 0"
      and e: "mount_target_pathname info = pathname"
      and ok: "fst (susfs_add_sus_mount h s (Some info) km) = 0" for info km
    using add_sus_mount_i_state [OF ok] marked [OF g i b] e by simp
  show ?thesis
    using skip skip_add mark marked marked_add by blast
qed







text \<open>
  On terminated arrays the comparison does not depend on the bytes that follow the
  arrays in memory.
\<close>

lemma cstr_terminated: "terminated a \<Longrightarrow> cstr (a @ r) = cstr a"
  by (induction a) (auto simp: cstr_def terminated_def)

lemma strcmp_eq_terminated:
  "terminated a \<Longrightarrow> terminated b \<Longrightarrow> (cstr (a @ ra) = cstr (b @ rb)) = strcmp_eq a b"
  by (simp add: strcmp_eq_def cstr_terminated)

lemma pathname_array_terminated: "length name < n \<Longrightarrow> terminated (pathname_array n name)"
  by (cases "n - length name") (auto simp: pathname_array_def terminated_def)




lemma strncpy_short:
  assumes "length (cstr src) < n"
  shows "cstr (strncpy dst src n) = cstr src"
proof -
  obtain k where k: "n = length (cstr src) + Suc k"
    using assms by (metis less_imp_Suc_add add_Suc_right)
  have "take n (cstr src @ replicate n NUL) = cstr src @ NUL # replicate k NUL"
    by (simp add: k)
  then have "strncpy dst src n = cstr src @ NUL # (replicate k NUL @ drop n dst)"
    by (simp add: strncpy_def)
  then show ?thesis
    by (simp only: cstr_append_NUL [OF cstr_no_NUL])
qed

lemma hlist_del_first_None: "hlist_del_first P l = None \<longleftrightarrow> (\<forall>e \<in> set l. \<not> P e)"
  by (induction l) auto

lemma hlist_del_first_Some:
  "hlist_del_first P l = Some l' \<Longrightarrow> \<exists>x. P x \<and> mset l = add_mset x (mset l')"
proof (induction l arbitrary: l')
  case Nil
  then show ?case by simp
next
  case (Cons e es)
  show ?case
  proof (cases "P e")
    case True
    with Cons.prems show ?thesis by auto
  next
    case False
    with Cons.prems obtain r where r: "hlist_del_first P es = Some r" and l': "l' = e # r"
      by auto
    from Cons.IH [OF r] obtain x where "P x" "mset es = add_mset x (mset r)" by blast
    with l' show ?thesis by (intro exI [of _ x]) simp
  qed
qed

lemma concat_map_upd_other:
  "b \<notin> set bkts \<Longrightarrow> concat (map (tbl(b := l)) bkts) = concat (map tbl bkts)"
  by (induction bkts) auto

lemma hash_del_first_False:
  "hash_del_first P tbl bkts = (tbl', False) \<Longrightarrow>
     tbl' = tbl \<and> (\<forall>e \<in> set (concat (map tbl bkts)). \<not> P e)"
proof (induction bkts)
  case Nil
  then show ?case by simp
next
  case (Cons b bs)
  then show ?case
    by (cases "hlist_del_first P (tbl b)") (auto simp: hlist_del_first_None)
qed

lemma hash_del_first_True:
  "hash_del_first P tbl bkts = (tbl', True) \<Longrightarrow> distinct bkts \<Longrightarrow>
     \<exists>x. P x \<and> mset (concat (map tbl bkts)) = add_mset x (mset (concat (map tbl' bkts)))"
proof (induction bkts)
  case Nil
  then show ?case by simp
next
  case (Cons b bs)
  show ?case
  proof (cases "hlist_del_first P (tbl b)")
    case None
    with Cons.prems have r: "hash_del_first P tbl bs = (tbl', True)" by simp
    from Cons.IH [OF r] Cons.prems(2) obtain x where
      x: "P x" "mset (concat (map tbl bs)) = add_mset x (mset (concat (map tbl' bs)))" by auto
    have "tbl' b = tbl b"
    proof -
      have "\<And>bs. hash_del_first P tbl bs = (tbl', True) \<Longrightarrow> b \<notin> set bs \<Longrightarrow> tbl' b = tbl b"
      proof -
        fix bs' show "hash_del_first P tbl bs' = (tbl', True) \<Longrightarrow> b \<notin> set bs' \<Longrightarrow> tbl' b = tbl b"
          by (induction bs') (auto split: option.splits)
      qed
      then show ?thesis using r Cons.prems(2) by simp
    qed
    with x show ?thesis by (intro exI [of _ x]) simp
  next
    case (Some es)
    with Cons.prems have t: "tbl' = tbl(b := es)" by simp
    from hlist_del_first_Some [OF Some] obtain x where
      x: "P x" "mset (tbl b) = add_mset x (mset es)" by blast
    have c: "concat (map tbl' bs) = concat (map tbl bs)"
      unfolding t by (rule concat_map_upd_other) (use Cons.prems(2) in simp)
    have b: "tbl' b = es" by (simp add: t)
    have "mset (concat (map tbl (b # bs))) = mset (tbl b) + mset (concat (map tbl bs))"
      by simp
    also have "\<dots> = add_mset x (mset es) + mset (concat (map tbl' bs))"
      by (simp only: x(2) c)
    also have "\<dots> = add_mset x (mset (tbl' b) + mset (concat (map tbl' bs)))"
      by (simp only: b union_mset_add_mset_left)
    also have "mset (tbl' b) + mset (concat (map tbl' bs)) = mset (concat (map tbl' (b # bs)))"
      by simp
    finally show ?thesis using x(1) by blast
  qed
qed

lemma hash_add_mset:
  "distinct bkts \<Longrightarrow> b \<in> set bkts \<Longrightarrow>
     mset (concat (map (tbl(b := e # tbl b)) bkts)) = add_mset e (mset (concat (map tbl bkts)))"
proof (induction bkts)
  case Nil
  then show ?case by simp
next
  case (Cons c cs)
  show ?case
  proof (cases "c = b")
    case True
    then have "b \<notin> set cs" using Cons.prems(1) by simp
    then have c: "concat (map (tbl(b := e # tbl b)) cs) = concat (map tbl cs)"
      by (rule concat_map_upd_other)
    have "mset (concat (map (tbl(b := e # tbl b)) (c # cs)))
            = mset ((tbl(b := e # tbl b)) c) + mset (concat (map (tbl(b := e # tbl b)) cs))"
      by simp
    also have "\<dots> = mset (e # tbl b) + mset (concat (map tbl cs))"
      by (simp only: c True fun_upd_same)
    also have "\<dots> = add_mset e (mset (concat (map tbl (c # cs))))"
      by (simp add: True)
    finally show ?thesis .
  next
    case False
    then have "b \<in> set cs" using Cons.prems(2) by simp
    moreover have "distinct cs" using Cons.prems(1) by simp
    ultimately have ih: "mset (concat (map (tbl(b := e # tbl b)) cs))
                     = add_mset e (mset (concat (map tbl cs)))"
      by (intro Cons.IH)
    have "mset (concat (map (tbl(b := e # tbl b)) (c # cs)))
            = mset ((tbl(b := e # tbl b)) c) + mset (concat (map (tbl(b := e # tbl b)) cs))"
      by simp
    also have "\<dots> = mset (tbl c) + add_mset e (mset (concat (map tbl cs)))"
      using False by (simp add: ih)
    also have "\<dots> = add_mset e (mset (concat (map tbl (c # cs))))"
      by simp
    finally show ?thesis .
  qed
qed

lemma hash_entries_del_False:
  "hash_del_first P tbl [0..<HASH_SIZE] = (tbl', False) \<Longrightarrow>
     tbl' = tbl \<and> (\<forall>e \<in> set (hash_entries tbl). \<not> P e)"
  unfolding hash_entries_def by (rule hash_del_first_False)

lemma hash_entries_del_True:
  "hash_del_first P tbl [0..<HASH_SIZE] = (tbl', True) \<Longrightarrow>
     \<exists>x. P x \<and> mset (hash_entries tbl) = add_mset x (mset (hash_entries tbl'))"
  unfolding hash_entries_def by (rule hash_del_first_True) simp_all

lemma hash_entries_add:
  "mset (hash_entries (hash_add h tbl e key)) = add_mset e (mset (hash_entries tbl))"
  unfolding hash_entries_def hash_add_def
  by (rule hash_add_mset) (simp_all add: HASH_SIZE_def)

lemma update_sus_path_inode_fields [simp]:
  "SUS_PATH_HLIST (snd (susfs_update_sus_path_inode h s pn)) = SUS_PATH_HLIST s"
  "kern_path (snd (susfs_update_sus_path_inode h s pn)) = kern_path s"
  "LH_SUS_MOUNT (snd (susfs_update_sus_path_inode h s pn)) = LH_SUS_MOUNT s"
  "LH_TRY_UMOUNT_PATH (snd (susfs_update_sus_path_inode h s pn)) = LH_TRY_UMOUNT_PATH s"
  "susfs_is_log_enabled (snd (susfs_update_sus_path_inode h s pn)) = susfs_is_log_enabled s"
  by (simp_all add: susfs_update_sus_path_inode_def Let_def split: option.splits)

lemma update_sus_path_inode_ok:
  "sus_path_resolves s (cstr pn) inode \<Longrightarrow>
     susfs_update_sus_path_inode h s pn = (0, set_i_state (INODE_STATE_SUS_PATH h) inode s)"
  by (cases "kern_path s (cstr pn)")
     (simp_all add: susfs_update_sus_path_inode_def sus_path_resolves_def Let_def)

lemma update_sus_path_inode_fail:
  "\<forall>inode. \<not> sus_path_resolves s (cstr pn) inode \<Longrightarrow>
     fst (susfs_update_sus_path_inode h s pn) = 1 \<and>
     i_state (snd (susfs_update_sus_path_inode h s pn)) = i_state s"
  by (auto simp: susfs_update_sus_path_inode_def sus_path_resolves_def Let_def split: option.splits)

lemma update_sus_path_inode_cong:
  "i_state (snd (susfs_update_sus_path_inode h (s\<lparr>SUS_PATH_HLIST := t\<rparr>) pn))
     = i_state (snd (susfs_update_sus_path_inode h s pn))"
  "fst (susfs_update_sus_path_inode h (s\<lparr>SUS_PATH_HLIST := t\<rparr>) pn)
     = fst (susfs_update_sus_path_inode h s pn)"
  by (simp_all add: susfs_update_sus_path_inode_def Let_def i_state_set_i_state split: option.splits)

lemma add_sus_path_phases:
  assumes d: "hash_del_first (\<lambda>e. strcmp_eq (target_pathname e) (target_pathname info))
                (SUS_PATH_HLIST s) [0..<HASH_SIZE] = (tbl1, u)"
  shows "susfs_add_sus_path h s (Some info) None = (1, SUSFS_LOG E_no_memory (s\<lparr>SUS_PATH_HLIST := tbl1\<rparr>))"
    and "fst (susfs_update_sus_path_inode h s
            (strncpy (target_pathname fresh) (target_pathname info) (SUSFS_MAX_LEN_PATHNAME h - 1))) \<noteq> 0
         \<Longrightarrow> fst (susfs_add_sus_path h s (Some info) (Some fresh)) = 1 \<and>
             SUS_PATH_HLIST (snd (susfs_add_sus_path h s (Some info) (Some fresh))) = tbl1 \<and>
             i_state (snd (susfs_add_sus_path h s (Some info) (Some fresh))) =
               i_state (snd (susfs_update_sus_path_inode h s
                 (strncpy (target_pathname fresh) (target_pathname info) (SUSFS_MAX_LEN_PATHNAME h - 1))))"
    and "fst (susfs_update_sus_path_inode h s
            (strncpy (target_pathname fresh) (target_pathname info) (SUSFS_MAX_LEN_PATHNAME h - 1))) = 0
         \<Longrightarrow> fst (susfs_add_sus_path h s (Some info) (Some fresh)) = 0 \<and>
             SUS_PATH_HLIST (snd (susfs_add_sus_path h s (Some info) (Some fresh))) =
               hash_add h tbl1
                 (fresh\<lparr>target_ino := target_ino info,
                        target_pathname := strncpy (target_pathname fresh) (target_pathname info)
                                             (SUSFS_MAX_LEN_PATHNAME h - 1)\<rparr>) (target_ino info) \<and>
             i_state (snd (susfs_add_sus_path h s (Some info) (Some fresh))) =
               i_state (snd (susfs_update_sus_path_inode h s
                 (strncpy (target_pathname fresh) (target_pathname info) (SUSFS_MAX_LEN_PATHNAME h - 1))))"
proof -
  let ?pn = "strncpy (target_pathname fresh) (target_pathname info) (SUSFS_MAX_LEN_PATHNAME h - 1)"
  let ?s1 = "s\<lparr>SUS_PATH_HLIST := tbl1\<rparr>"
  show "susfs_add_sus_path h s (Some info) None = (1, SUSFS_LOG E_no_memory ?s1)"
    using d by (simp add: susfs_add_sus_path_def Let_def)
  obtain r s2 where u2: "susfs_update_sus_path_inode h ?s1 ?pn = (r, s2)"
    by (cases "susfs_update_sus_path_inode h ?s1 ?pn") auto
  have r': "r = fst (susfs_update_sus_path_inode h ?s1 ?pn)"
    and s2: "s2 = snd (susfs_update_sus_path_inode h ?s1 ?pn)"
    by (simp_all only: u2 fst_conv snd_conv)
  have r: "r = fst (susfs_update_sus_path_inode h s ?pn)"
    unfolding r' by (rule update_sus_path_inode_cong(2))
  have i2: "i_state s2 = i_state (snd (susfs_update_sus_path_inode h s ?pn))"
    unfolding s2 by (rule update_sus_path_inode_cong(1))
  have t2: "SUS_PATH_HLIST s2 = tbl1"
    unfolding s2 by simp
  show "fst (susfs_add_sus_path h s (Some info) (Some fresh)) = 1 \<and>
             SUS_PATH_HLIST (snd (susfs_add_sus_path h s (Some info) (Some fresh))) = tbl1 \<and>
             i_state (snd (susfs_add_sus_path h s (Some info) (Some fresh))) =
               i_state (snd (susfs_update_sus_path_inode h s ?pn))"
    if "fst (susfs_update_sus_path_inode h s ?pn) \<noteq> 0"
    using that d u2 r i2 t2 by (simp add: susfs_add_sus_path_def Let_def)
  show "fst (susfs_add_sus_path h s (Some info) (Some fresh)) = 0 \<and>
             SUS_PATH_HLIST (snd (susfs_add_sus_path h s (Some info) (Some fresh))) =
               hash_add h tbl1
                 (fresh\<lparr>target_ino := target_ino info, target_pathname := ?pn\<rparr>) (target_ino info) \<and>
             i_state (snd (susfs_add_sus_path h s (Some info) (Some fresh))) =
               i_state (snd (susfs_update_sus_path_inode h s ?pn))"
    if "fst (susfs_update_sus_path_inode h s ?pn) = 0"
    using that d u2 r i2 t2 by (simp add: susfs_add_sus_path_def Let_def)
qed

lemma length_filter_mset: "length (filter Q xs) = size (filter_mset Q (mset xs))"
  by (metis mset_filter size_mset)

lemma records_del:
  assumes "hash_del_first (\<lambda>e. strcmp_eq (target_pathname e) (target_pathname info))
             (SUS_PATH_HLIST s) [0..<HASH_SIZE] = (tbl1, u)"
  shows "length (sus_path_records (s\<lparr>SUS_PATH_HLIST := tbl1\<rparr>) m) =
           length (sus_path_records s m) -
             (if m = cstr (target_pathname info) then 1 else 0)"
    and "\<not> u \<Longrightarrow> length (sus_path_records s (cstr (target_pathname info))) = 0"
    and "u \<Longrightarrow> 0 < length (sus_path_records s (cstr (target_pathname info)))"
proof -
  let ?P = "\<lambda>e. strcmp_eq (target_pathname e) (target_pathname info)"
  let ?Q = "\<lambda>e. cstr (target_pathname e) = m"
  let ?R = "\<lambda>e. cstr (target_pathname e) = cstr (target_pathname info)"
  have none: "tbl1 = SUS_PATH_HLIST s \<and> (\<forall>e \<in> set (hash_entries (SUS_PATH_HLIST s)). \<not> ?P e)"
    if "\<not> u"
    using hash_entries_del_False [of ?P "SUS_PATH_HLIST s" tbl1] assms that by simp
  have some: "\<exists>x. ?P x \<and> mset (hash_entries (SUS_PATH_HLIST s)) = add_mset x (mset (hash_entries tbl1))"
    if "u"
    using hash_entries_del_True [of ?P "SUS_PATH_HLIST s" tbl1] assms that by simp
  show "\<not> u \<Longrightarrow> length (sus_path_records s (cstr (target_pathname info))) = 0"
    using none by (auto simp: sus_path_records_def strcmp_eq_def filter_empty_conv)
  show "u \<Longrightarrow> 0 < length (sus_path_records s (cstr (target_pathname info)))"
  proof -
    assume u
    from some [OF this] obtain x where x: "?P x"
      "mset (hash_entries (SUS_PATH_HLIST s)) = add_mset x (mset (hash_entries tbl1))" by blast
    have "x \<in># mset (hash_entries (SUS_PATH_HLIST s))" by (simp add: x(2))
    then have "x \<in> set (filter ?R (hash_entries (SUS_PATH_HLIST s)))"
      using x(1) by (simp add: strcmp_eq_def)
    then show ?thesis
      unfolding sus_path_records_def by (simp only: length_pos_if_in_set)
  qed
  show "length (sus_path_records (s\<lparr>SUS_PATH_HLIST := tbl1\<rparr>) m) =
           length (sus_path_records s m) -
             (if m = cstr (target_pathname info) then 1 else 0)"
  proof (cases u)
    case False
    have "length (sus_path_records s m) = 0" if "m = cstr (target_pathname info)"
      using none [OF False] that
      by (auto simp: sus_path_records_def strcmp_eq_def filter_empty_conv)
    then show ?thesis using none [OF False] by (auto simp: sus_path_records_def)
  next
    case True
    from some [OF True] obtain x where x: "?P x"
      "mset (hash_entries (SUS_PATH_HLIST s)) = add_mset x (mset (hash_entries tbl1))" by blast
    have "length (filter ?Q (hash_entries (SUS_PATH_HLIST s))) =
            size (filter_mset ?Q (add_mset x (mset (hash_entries tbl1))))"
      by (simp only: length_filter_mset x(2))
    also have "\<dots> = (if ?Q x then 1 else 0) + length (filter ?Q (hash_entries tbl1))"
      by (simp add: length_filter_mset)
    finally have "length (filter ?Q (hash_entries tbl1)) =
        length (filter ?Q (hash_entries (SUS_PATH_HLIST s))) - (if ?Q x then 1 else 0)"
      by simp
    moreover have "?Q x \<longleftrightarrow> m = cstr (target_pathname info)"
      using x(1) by (auto simp: strcmp_eq_def)
    ultimately show ?thesis by (simp add: sus_path_records_def)
  qed
qed

lemma records_add:
  "length (sus_path_records (s\<lparr>SUS_PATH_HLIST := hash_add h tbl e key\<rparr>) m) =
     length (sus_path_records (s\<lparr>SUS_PATH_HLIST := tbl\<rparr>) m) +
       (if cstr (target_pathname e) = m then 1 else 0)"
proof -
  let ?Q = "\<lambda>e. cstr (target_pathname e) = m"
  have "length (filter ?Q (hash_entries (hash_add h tbl e key))) =
          size (filter_mset ?Q (add_mset e (mset (hash_entries tbl))))"
    by (simp only: length_filter_mset hash_entries_add)
  also have "\<dots> = (if ?Q e then 1 else 0) + length (filter ?Q (hash_entries tbl))"
    by (simp add: length_filter_mset)
  finally show ?thesis by (simp add: sus_path_records_def)
qed

lemma add_sus_path_kern_path:
  "kern_path (snd (susfs_add_sus_path h s ui km)) = kern_path s"
  by (simp add: susfs_add_sus_path_def Let_def case_prod_beta split: option.splits)


lemma add_sus_path_success:
  assumes short: "short_name h (Some info)"
    and ok: "susfs_add_sus_path h s (Some info) km = (0, s')"
  shows "length (sus_path_records s' (cstr (target_pathname info)))
           = max 1 (length (sus_path_records s (cstr (target_pathname info))))"
    and "m \<noteq> cstr (target_pathname info) \<Longrightarrow>
           length (sus_path_records s' m) = length (sus_path_records s m)"
    and "\<exists>inode. sus_path_resolves s (cstr (target_pathname info)) inode \<and>
           i_state s' = i_state (set_i_state (INODE_STATE_SUS_PATH h) inode s)"
    and "kern_path s' = kern_path s"
proof -
  let ?name = "cstr (target_pathname info)"
  obtain tbl1 u where d: "hash_del_first (\<lambda>e. strcmp_eq (target_pathname e) (target_pathname info))
                (SUS_PATH_HLIST s) [0..<HASH_SIZE] = (tbl1, u)"
    by (cases "hash_del_first (\<lambda>e. strcmp_eq (target_pathname e) (target_pathname info))
                (SUS_PATH_HLIST s) [0..<HASH_SIZE]") auto
  obtain fresh where km: "km = Some fresh"
    using ok add_sus_path_phases(1) [OF d, of h] by (cases km) auto
  let ?pn = "strncpy (target_pathname fresh) (target_pathname info) (SUSFS_MAX_LEN_PATHNAME h - 1)"
  let ?new = "fresh\<lparr>target_ino := target_ino info, target_pathname := ?pn\<rparr>"
  have pn: "cstr ?pn = ?name"
    using short by (simp add: short_name_def strncpy_short)
  have u0: "fst (susfs_update_sus_path_inode h s ?pn) = 0"
  proof (rule ccontr)
    assume "fst (susfs_update_sus_path_inode h s ?pn) \<noteq> 0"
    from add_sus_path_phases(2) [OF d this] ok km show False by simp
  qed
  note ph = add_sus_path_phases(3) [OF d u0]
  have s': "s' = snd (susfs_add_sus_path h s (Some info) (Some fresh))"
    using ok km by simp
  have t: "SUS_PATH_HLIST s' = hash_add h tbl1 ?new (target_ino info)"
    using ph s' by simp
  have cnt: "length (sus_path_records s' m)
              = length (sus_path_records s m) - (if m = ?name then 1 else 0)
                + (if ?name = m then 1 else 0)" for m
  proof -
    have "sus_path_records s' m
              = sus_path_records (s\<lparr>SUS_PATH_HLIST := hash_add h tbl1 ?new (target_ino info)\<rparr>) m"
      by (simp add: sus_path_records_def t)
    then show ?thesis
      using records_add [of h tbl1 ?new "target_ino info" s m] pn records_del(1) [OF d, of m]
      by simp
  qed
  show "length (sus_path_records s' ?name) = max 1 (length (sus_path_records s ?name))"
    using cnt [of ?name] by auto
  show "m \<noteq> ?name \<Longrightarrow> length (sus_path_records s' m) = length (sus_path_records s m)"
    using cnt [of m] by auto
  obtain inode where r: "sus_path_resolves s (cstr ?pn) inode"
    using u0 update_sus_path_inode_fail [of s ?pn h] by auto
  have "i_state s' = i_state (set_i_state (INODE_STATE_SUS_PATH h) inode s)"
    using ph s' update_sus_path_inode_ok [OF r, of h] by simp
  then show "\<exists>inode. sus_path_resolves s ?name inode \<and>
           i_state s' = i_state (set_i_state (INODE_STATE_SUS_PATH h) inode s)"
    using r pn by auto
  show "kern_path s' = kern_path s"
    using add_sus_path_kern_path [of h s "Some info" km] ok by simp
qed

lemma records_kern_path [simp]:
  "sus_path_records (s\<lparr>kern_path := fs\<rparr>) m = sus_path_records s m"
  by (simp add: sus_path_records_def)

lemma records_empty:
  "SUS_PATH_HLIST s = (\<lambda>bkt. []) \<Longrightarrow> sus_path_records s m = []"
  by (simp add: sus_path_records_def hash_entries_def)


lemma add_sus_path_returns:
  assumes "short_name h (Some info)"
  shows "fst (susfs_add_sus_path h s (Some info) (Some fresh)) =
           (if \<exists>inode. sus_path_resolves s (cstr (target_pathname info)) inode then 0 else 1)"
proof -
  obtain tbl1 u where d: "hash_del_first (\<lambda>e. strcmp_eq (target_pathname e) (target_pathname info))
                (SUS_PATH_HLIST s) [0..<HASH_SIZE] = (tbl1, u)"
    by (cases "hash_del_first (\<lambda>e. strcmp_eq (target_pathname e) (target_pathname info))
                (SUS_PATH_HLIST s) [0..<HASH_SIZE]") auto
  let ?pn = "strncpy (target_pathname fresh) (target_pathname info) (SUSFS_MAX_LEN_PATHNAME h - 1)"
  have pn: "cstr ?pn = cstr (target_pathname info)"
    using assms by (simp add: short_name_def strncpy_short)
  show ?thesis
  proof (cases "\<exists>inode. sus_path_resolves s (cstr (target_pathname info)) inode")
    case True
    then obtain inode where "sus_path_resolves s (cstr ?pn) inode" using pn by auto
    from update_sus_path_inode_ok [OF this, of h]
    have "fst (susfs_update_sus_path_inode h s ?pn) = 0" by simp
    from add_sus_path_phases(3) [OF d this] True show ?thesis by simp
  next
    case False
    then have "\<forall>inode. \<not> sus_path_resolves s (cstr ?pn) inode" using pn by simp
    from update_sus_path_inode_fail [OF this, of h]
    have "fst (susfs_update_sus_path_inode h s ?pn) \<noteq> 0" by simp
    from add_sus_path_phases(2) [OF d this] False show ?thesis by simp
  qed
qed


subsection \<open>Concrete runs\<close>

lemma cstr_pathname_array:
  assumes "NUL \<notin> set name" "length name < n"
  shows "cstr (pathname_array n name) = name"
proof -
  obtain k where "n - length name = Suc k"
    using assms(2) by (cases "n - length name") auto
  then have "pathname_array n name = name @ NUL # replicate k NUL"
    by (simp add: pathname_array_def)
  then show ?thesis by (simp only: cstr_append_NUL [OF assms(1)])
qed

lemma demo_names:
  "cstr (pathname_array 256 ''/system/addon'') = ''/system/addon''"
  "cstr (pathname_array 256 ''/mnt/shared'') = ''/mnt/shared''"
  "cstr (pathname_array 256 ''/mnt/sus'') = ''/mnt/sus''"
  "cstr (pathname_array 256 ''/data/adb/modules'') = ''/data/adb/modules''"
  "cstr (pathname_array 256 ''/data/adb/a'') = ''/data/adb/a''"
  "cstr (pathname_array 256 ''/data/adb/b'') = ''/data/adb/b''"
  "cstr (pathname_array 256 ''/data/adb/c'') = ''/data/adb/c''"
  by (simp_all add: cstr_pathname_array)

lemma add_sus_path_failure:
  assumes "short_name h (Some info)"
    and "\<forall>inode. \<not> sus_path_resolves s (cstr (target_pathname info)) inode"
  shows "fst (susfs_add_sus_path h s (Some info) (Some fresh)) = 1"
    and "length (sus_path_records (snd (susfs_add_sus_path h s (Some info) (Some fresh))) m) =
           length (sus_path_records s m) - (if m = cstr (target_pathname info) then 1 else 0)"
    and "i_state (snd (susfs_add_sus_path h s (Some info) (Some fresh))) = i_state s"
proof -
  obtain tbl1 u where d: "hash_del_first (\<lambda>e. strcmp_eq (target_pathname e) (target_pathname info))
                (SUS_PATH_HLIST s) [0..<HASH_SIZE] = (tbl1, u)"
    by (cases "hash_del_first (\<lambda>e. strcmp_eq (target_pathname e) (target_pathname info))
                (SUS_PATH_HLIST s) [0..<HASH_SIZE]") auto
  let ?pn = "strncpy (target_pathname fresh) (target_pathname info) (SUSFS_MAX_LEN_PATHNAME h - 1)"
  have pn: "cstr ?pn = cstr (target_pathname info)"
    using assms(1) by (simp add: short_name_def strncpy_short)
  have nr: "\<forall>inode. \<not> sus_path_resolves s (cstr ?pn) inode"
    using assms(2) pn by simp
  note f = update_sus_path_inode_fail [OF nr, of h]
  from f have "fst (susfs_update_sus_path_inode h s ?pn) \<noteq> 0" by simp
  note ph = add_sus_path_phases(2) [OF d this]
  show "fst (susfs_add_sus_path h s (Some info) (Some fresh)) = 1" using ph by simp
  show "i_state (snd (susfs_add_sus_path h s (Some info) (Some fresh))) = i_state s"
    using ph f by simp
  have "sus_path_records (snd (susfs_add_sus_path h s (Some info) (Some fresh))) m
          = sus_path_records (s\<lparr>SUS_PATH_HLIST := tbl1\<rparr>) m"
    using ph by (simp add: sus_path_records_def)
  then show "length (sus_path_records (snd (susfs_add_sus_path h s (Some info) (Some fresh))) m) =
           length (sus_path_records s m) - (if m = cstr (target_pathname info) then 1 else 0)"
    using records_del(1) [OF d, of m] by simp
qed

lemma demo_short: "short_name demo_h (Some (demo_path ''/system/addon''))"
  by (simp add: short_name_def demo_path_def demo_h_def demo_names)

text \<open>
  C5 fails on the code. "/system/addon" is registered; afterwards the path no longer
  resolves. Registering it again returns 1, and the record of the first registration
  is gone from the table: the old record is unlinked before the new one is validated,
  and the failure return does not put it back.
\<close>

theorem failed_reregistration_drops_record:
  "fst (susfs_add_sus_path demo_h (demo_susfs True) (Some (demo_path ''/system/addon''))
          (Some (demo_path []))) = 0 \<and>
   length (sus_path_records demo_registered ''/system/addon'') = 1 \<and>
   kern_path demo_registered ''/system/addon'' = None \<and>
   fst (susfs_add_sus_path demo_h demo_registered (Some (demo_path ''/system/addon''))
          (Some (demo_path []))) = 1 \<and>
   length (sus_path_records
     (snd (susfs_add_sus_path demo_h demo_registered (Some (demo_path ''/system/addon''))
             (Some (demo_path [])))) ''/system/addon'') = 0"
proof -
  let ?A = "demo_path ''/system/addon''"
  let ?r = "susfs_add_sus_path demo_h (demo_susfs True) (Some ?A) (Some (demo_path []))"
  have nm: "cstr (target_pathname ?A) = ''/system/addon''"
    by (simp add: demo_path_def demo_names)
  have res: "\<exists>inode. sus_path_resolves (demo_susfs True) (cstr (target_pathname ?A)) inode"
    unfolding nm by (rule exI [of _ 7]) (simp add: sus_path_resolves_def demo_susfs_def demo_fs_def)
  have ok: "fst ?r = 0"
    using add_sus_path_returns [OF demo_short, of "demo_susfs True" "demo_path []"] res by simp
  then have eq: "?r = (0, snd ?r)" by (metis prod.collapse)
  have e0: "sus_path_records (demo_susfs True) ''/system/addon'' = []"
    by (rule records_empty) (simp add: demo_susfs_def)
  have one: "length (sus_path_records demo_registered ''/system/addon'') = 1"
    using add_sus_path_success(1) [OF demo_short eq] e0
    by (simp add: demo_registered_def nm)
  have gone: "kern_path demo_registered ''/system/addon'' = None"
    by (simp add: demo_registered_def)
  have nr: "\<forall>inode. \<not> sus_path_resolves demo_registered (cstr (target_pathname ?A)) inode"
    by (simp add: sus_path_resolves_def demo_registered_def)
  note f = add_sus_path_failure [OF demo_short nr, of "demo_path []"]
  have zero: "length (sus_path_records
     (snd (susfs_add_sus_path demo_h demo_registered (Some ?A) (Some (demo_path []))))
        ''/system/addon'') = 0"
    using f(2) [of "''/system/addon''"] one by (simp add: nm)
  show ?thesis using ok one gone f(1) zero by simp
qed

lemma demo_umount_fields [simp]:
  "cstr (umount_target_pathname (demo_umount ''/data/adb/a'' m)) = ''/data/adb/a''"
  "cstr (umount_target_pathname (demo_umount ''/data/adb/b'' m)) = ''/data/adb/b''"
  "cstr (umount_target_pathname (demo_umount ''/data/adb/c'' m)) = ''/data/adb/c''"
  "cstr (umount_target_pathname (demo_umount ''/data/adb/modules'' m)) = ''/data/adb/modules''"
  "mnt_mode (demo_umount name m) = m"
  by (simp_all add: demo_umount_def demo_names)

lemma demo_ledger1_eq:
  "susfs_add_try_umount demo_h (demo_susfs False)
      (Some (demo_umount ''/data/adb/a'' 0)) (Some (demo_umount [] 0)) = (0, demo_ledger1)"
  "LH_TRY_UMOUNT_PATH demo_ledger1 = [demo_umount ''/data/adb/a'' 0]"
  "ktrace demo_ledger1 = []" "\<not> susfs_is_log_enabled demo_ledger1"
  by (simp_all add: demo_ledger1_def susfs_add_try_umount_def demo_susfs_def Let_def SUSFS_LOG_def)

lemma demo_ledger2_eq:
  "susfs_add_try_umount demo_h demo_ledger1
      (Some (demo_umount ''/data/adb/b'' 1)) (Some (demo_umount [] 0)) = (0, demo_ledger2)"
  "LH_TRY_UMOUNT_PATH demo_ledger2 = [demo_umount ''/data/adb/a'' 0, demo_umount ''/data/adb/b'' 1]"
  "ktrace demo_ledger2 = []" "\<not> susfs_is_log_enabled demo_ledger2"
  by (simp_all add: demo_ledger2_def susfs_add_try_umount_def demo_ledger1_eq Let_def
      SUSFS_LOG_def strcmp_eq_def)

lemma demo_ledger3_eq:
  "susfs_add_try_umount demo_h demo_ledger2
      (Some (demo_umount ''/data/adb/c'' 0)) (Some (demo_umount [] 0)) = (0, demo_ledger3)"
  "ktrace demo_ledger3 = []" "\<not> susfs_is_log_enabled demo_ledger3"
  by (simp_all add: demo_ledger3_def susfs_add_try_umount_def demo_ledger2_eq Let_def
      SUSFS_LOG_def strcmp_eq_def)

theorem replay_is_reverse_insertion_order_witness:
  "LH_TRY_UMOUNT_PATH (demo_susfs False) = [] \<and>
   susfs_add_try_umount demo_h (demo_susfs False)
      (Some (demo_umount ''/data/adb/a'' 0)) (Some (demo_umount [] 0)) = (0, demo_ledger1) \<and>
   susfs_add_try_umount demo_h demo_ledger1
      (Some (demo_umount ''/data/adb/b'' 1)) (Some (demo_umount [] 0)) = (0, demo_ledger2) \<and>
   susfs_add_try_umount demo_h demo_ledger2
      (Some (demo_umount ''/data/adb/c'' 0)) (Some (demo_umount [] 0)) = (0, demo_ledger3) \<and>
   LH_TRY_UMOUNT_PATH demo_ledger3 =
     [demo_umount ''/data/adb/a'' 0, demo_umount ''/data/adb/b'' 1, demo_umount ''/data/adb/c'' 0] \<and>
   ktrace (susfs_try_umount demo_h demo_ledger3 10123) =
     [Ksu_try_umount ''/data/adb/c'' False 0 10123,
      Ksu_try_umount ''/data/adb/b'' False 2 10123,
      Ksu_try_umount ''/data/adb/a'' False 0 10123]"
proof -
  have e: "LH_TRY_UMOUNT_PATH (demo_susfs False) = []" by (simp add: demo_susfs_def)
  note t = replay_is_reverse_insertion_order
    [of demo_h 10123 "demo_umount ''/data/adb/a'' 0" "demo_susfs False"
        "demo_susfs False" "demo_umount ''/data/adb/a'' 0" "Some (demo_umount [] 0)" demo_ledger1
        "demo_umount ''/data/adb/b'' 1" "Some (demo_umount [] 0)" demo_ledger2
        "demo_umount ''/data/adb/c'' 0" "Some (demo_umount [] 0)" demo_ledger3]
  from t e demo_ledger1_eq(1) demo_ledger2_eq(1) demo_ledger3_eq(1)
  have l: "LH_TRY_UMOUNT_PATH demo_ledger3 =
     [demo_umount ''/data/adb/a'' 0, demo_umount ''/data/adb/b'' 1, demo_umount ''/data/adb/c'' 0]"
    and k: "ktrace (susfs_try_umount demo_h demo_ledger3 10123) =
        ktrace demo_ledger3 @ loop_events demo_h 10123 (susfs_is_log_enabled demo_ledger3)
                                (demo_umount ''/data/adb/c'' 0)
                  @ loop_events demo_h 10123 (susfs_is_log_enabled demo_ledger3)
                                (demo_umount ''/data/adb/b'' 1)
                  @ loop_events demo_h 10123 (susfs_is_log_enabled demo_ledger3)
                                (demo_umount ''/data/adb/a'' 0)"
    by blast+
  have "ktrace (susfs_try_umount demo_h demo_ledger3 10123) =
     [Ksu_try_umount ''/data/adb/c'' False 0 10123,
      Ksu_try_umount ''/data/adb/b'' False 2 10123,
      Ksu_try_umount ''/data/adb/a'' False 0 10123]"
    unfolding k by (simp add: loop_events_def demo_ledger3_eq demo_h_def)
  then show ?thesis
    using e demo_ledger1_eq(1) demo_ledger2_eq(1) demo_ledger3_eq(1) l by simp
qed

lemma demo_modules_eq:
  "susfs_add_try_umount demo_h (demo_susfs logging)
      (Some (demo_umount ''/data/adb/modules'' 1)) (Some (demo_umount [] 0))
     = (0, demo_modules logging)"
  "LH_TRY_UMOUNT_PATH (demo_modules logging) = [demo_umount ''/data/adb/modules'' 1]"
  "susfs_is_log_enabled (demo_modules logging) = logging"
  by (simp_all add: demo_modules_def susfs_add_try_umount_def demo_susfs_def Let_def SUSFS_LOG_def)

theorem duplicate_try_umount_is_rejected_witness:
  "susfs_add_try_umount demo_h (demo_susfs True)
      (Some (demo_umount ''/data/adb/modules'' 1)) (Some (demo_umount [] 0))
     = (0, demo_modules True) \<and>
   strcmp_eq (umount_target_pathname (demo_umount ''/data/adb/modules'' 0))
             (umount_target_pathname (demo_umount ''/data/adb/modules'' 1)) \<and>
   terminated (umount_target_pathname (demo_umount ''/data/adb/modules'' 1)) \<and>
   terminated (umount_target_pathname (demo_umount ''/data/adb/modules'' 0)) \<and>
   LH_TRY_UMOUNT_PATH (demo_susfs True) = [] \<and>
   fst (susfs_add_try_umount demo_h (demo_modules True)
         (Some (demo_umount ''/data/adb/modules'' 0)) (Some (demo_umount [] 0))) = 1 \<and>
   LH_TRY_UMOUNT_PATH (snd (susfs_add_try_umount demo_h (demo_modules True)
         (Some (demo_umount ''/data/adb/modules'' 0)) (Some (demo_umount [] 0))))
     = [demo_umount ''/data/adb/modules'' 1]"
proof -
  have a: "susfs_add_try_umount demo_h (demo_susfs True)
      (Some (demo_umount ''/data/adb/modules'' 1)) (Some (demo_umount [] 0))
     = (0, demo_modules True)"
    by (rule demo_modules_eq)
  have b: "strcmp_eq (umount_target_pathname (demo_umount ''/data/adb/modules'' 0))
             (umount_target_pathname (demo_umount ''/data/adb/modules'' 1))"
    by (simp add: strcmp_eq_def)
  have t1: "terminated (umount_target_pathname (demo_umount ''/data/adb/modules'' 1))"
    by (simp add: demo_umount_def pathname_array_terminated)
  have t2: "terminated (umount_target_pathname (demo_umount ''/data/adb/modules'' 0))"
    by (simp add: demo_umount_def pathname_array_terminated)
  have e: "LH_TRY_UMOUNT_PATH (demo_susfs True) = []" by (simp add: demo_susfs_def)
  have t3: "\<forall>c \<in> set (LH_TRY_UMOUNT_PATH (demo_susfs True)).
              terminated (umount_target_pathname c)"
    by (simp add: e)
  note r = duplicate_try_umount_is_rejected [OF a b t1 t2 t3, of "Some (demo_umount [] 0)"]
  have x: "fst (susfs_add_try_umount demo_h (demo_modules True)
         (Some (demo_umount ''/data/adb/modules'' 0)) (Some (demo_umount [] 0))) = 1"
    using r by simp
  have y: "LH_TRY_UMOUNT_PATH (snd (susfs_add_try_umount demo_h (demo_modules True)
         (Some (demo_umount ''/data/adb/modules'' 0)) (Some (demo_umount [] 0))))
     = [demo_umount ''/data/adb/modules'' 1]"
    using r e by simp
  show ?thesis using a b t1 t2 e x y by simp
qed

text \<open>
  C8 as stated fails: with logging disabled a duplicate registration, a registration
  whose copy from user space faults and one whose allocation fails all give the same
  result, the value 1 and the unchanged state; with logging enabled the return value
  is still the same 1.
\<close>

theorem duplicate_error_is_not_distinct:
  "LH_TRY_UMOUNT_PATH (demo_modules False) = [demo_umount ''/data/adb/modules'' 1] \<and>
   susfs_add_try_umount demo_h (demo_modules False)
       (Some (demo_umount ''/data/adb/modules'' 1)) (Some (demo_umount [] 0))
     = (1, demo_modules False) \<and>
   susfs_add_try_umount demo_h (demo_modules False) None (Some (demo_umount [] 0))
     = (1, demo_modules False) \<and>
   susfs_add_try_umount demo_h (demo_modules False) (Some (demo_umount ''/data/adb/a'' 0)) None
     = (1, demo_modules False) \<and>
   fst (susfs_add_try_umount demo_h (demo_modules True)
       (Some (demo_umount ''/data/adb/modules'' 1)) (Some (demo_umount [] 0))) = 1 \<and>
   fst (susfs_add_try_umount demo_h (demo_modules True) None (Some (demo_umount [] 0))) = 1"
  by (simp add: susfs_add_try_umount_def demo_modules_eq SUSFS_LOG_def strcmp_eq_def Let_def)

theorem legit_peer_group_is_never_marked_witness:
  "kern_path (demo_susfs True) (cstr (pathname_array 256 ''/mnt/shared''))
     = Some \<lparr>s_type_name = ''ext4'', mnt_group_id = 5, d_inode = Some 9\<rparr> \<and>
   (0::int) < 5 \<and> 5 < DEFAULT_SUS_MNT_GROUP_ID demo_h \<and>
   i_state (susfs_update_sus_mount_inode demo_h (demo_susfs True) (pathname_array 256 ''/mnt/shared''))
     = i_state (demo_susfs True) \<and>
   i_state (snd (susfs_add_sus_mount demo_h (demo_susfs True)
                   (Some (demo_mount ''/mnt/shared'' 0x10300)) (Some (demo_mount [] 0))))
     = i_state (demo_susfs True) \<and>
   kern_path (demo_susfs True) (cstr (pathname_array 256 ''/mnt/sus''))
     = Some \<lparr>s_type_name = ''ext4'', mnt_group_id = 1000, d_inode = Some 10\<rparr> \<and>
   DEFAULT_SUS_MNT_GROUP_ID demo_h \<le> 1000 \<and>
   INODE_STATE_SUS_MOUNT demo_h \<noteq> 0 \<and>
   i_state (susfs_update_sus_mount_inode demo_h (demo_susfs True) (pathname_array 256 ''/mnt/sus'')) 10
     AND INODE_STATE_SUS_MOUNT demo_h \<noteq> 0"
proof -
  let ?p = "\<lparr>s_type_name = ''ext4'', mnt_group_id = 5, d_inode = Some 9\<rparr>"
  let ?q = "\<lparr>s_type_name = ''ext4'', mnt_group_id = 1000, d_inode = Some 10\<rparr>"
  have k1: "kern_path (demo_susfs True) (cstr (pathname_array 256 ''/mnt/shared'')) = Some ?p"
    by (simp add: demo_names demo_susfs_def demo_fs_def)
  have k2: "kern_path (demo_susfs True) (cstr (pathname_array 256 ''/mnt/sus'')) = Some ?q"
    by (simp add: demo_names demo_susfs_def demo_fs_def)
  have g: "(0::int) < 5" "5 < DEFAULT_SUS_MNT_GROUP_ID demo_h"
    "DEFAULT_SUS_MNT_GROUP_ID demo_h \<le> 1000" "INODE_STATE_SUS_MOUNT demo_h \<noteq> 0"
    by (simp_all add: demo_h_def)
  have m: "mount_target_pathname (demo_mount ''/mnt/shared'' 0x10300) = pathname_array 256 ''/mnt/shared''"
    by (simp add: demo_mount_def)
  note a = legit_peer_group_is_never_marked [OF k1, of demo_h]
  note b = legit_peer_group_is_never_marked [OF k2, of demo_h 10]
  have a1: "i_state (susfs_update_sus_mount_inode demo_h (demo_susfs True) (pathname_array 256 ''/mnt/shared''))
     = i_state (demo_susfs True)"
    using a g by simp
  have a2: "i_state (snd (susfs_add_sus_mount demo_h (demo_susfs True)
                   (Some (demo_mount ''/mnt/shared'' 0x10300)) (Some (demo_mount [] 0))))
     = i_state (demo_susfs True)"
    using a g m by simp
  have b1: "i_state (susfs_update_sus_mount_inode demo_h (demo_susfs True) (pathname_array 256 ''/mnt/sus'')) 10
     AND INODE_STATE_SUS_MOUNT demo_h \<noteq> 0"
    using b g by simp
  show ?thesis using k1 k2 g a1 a2 b1 by simp
qed



end
